theory Spec2Isabelle
  imports Complex_Main
begin

section \<open>The dedup ledger of \<^verbatim>\<open>telegramBot.ts\<close>\<close>

subsection \<open>Normalising and hashing a token address\<close>

text \<open>
  A JavaScript string is modelled by the sequence of its code points, as natural
  numbers. \<^verbatim>\<open>String.prototype.trim\<close> strips the white space and line terminators of
  ECMAScript from both ends: TAB, LF, VT, FF, CR, SPACE, NBSP, the other space separators
  (\<^verbatim>\<open>U+1680\<close>, \<^verbatim>\<open>U+2000\<close> to \<^verbatim>\<open>U+200A\<close>, \<^verbatim>\<open>U+202F\<close>, \<^verbatim>\<open>U+205F\<close>, \<^verbatim>\<open>U+3000\<close>), the line and
  paragraph separators \<^verbatim>\<open>U+2028\<close> and \<^verbatim>\<open>U+2029\<close>, and \<^verbatim>\<open>U+FEFF\<close>.
\<close>

definition isWhiteSpace :: "nat \<Rightarrow> bool" where
  "isWhiteSpace c =
     (c \<in> {9, 10, 11, 12, 13, 32, 160, 5760, 8232, 8233, 8239, 8287, 12288, 65279} \<or>
      (8192 \<le> c \<and> c \<le> 8202))"

definition trim :: "nat list \<Rightarrow> nat list" where
  "trim s = rev (dropWhile isWhiteSpace (rev (dropWhile isWhiteSpace s)))"

text \<open>
  \<^verbatim>\<open>String.prototype.toLowerCase\<close> follows the Unicode default case conversion. The
  Unicode Character Database is not part of the repository: its simple lowercase mapping
  and its properties Cased and Case_Ignorable are parameters, collected in a record. The
  model fixes their values where it relies on them: the lowercase mapping on Basic Latin
  and Latin-1 (\<^verbatim>\<open>A-Z\<close> and \<^verbatim>\<open>U+00C0\<close> to \<^verbatim>\<open>U+00DE\<close> without the multiplication sign
  \<^verbatim>\<open>U+00D7\<close> go to the code point 32 above, every other code point below 256 stays) and
  on the two small sigmas \<^verbatim>\<open>U+03C2\<close> and \<^verbatim>\<open>U+03C3\<close> (they stay), and Cased on ASCII (the
  letters).
\<close>

record unicodeData =
  simpleLowercase :: "nat \<Rightarrow> nat"
  cased :: "nat \<Rightarrow> bool"
  caseIgnorable :: "nat \<Rightarrow> bool"

definition lowercaseMapping :: "unicodeData \<Rightarrow> nat \<Rightarrow> nat" where
  "lowercaseMapping ucd c =
     (if c < 256
      then (if (65 \<le> c \<and> c \<le> 90) \<or> (192 \<le> c \<and> c \<le> 222 \<and> c \<noteq> 215) then c + 32 else c)
      else if c = 962 \<or> c = 963 then c
      else simpleLowercase ucd c)"

definition isCased :: "unicodeData \<Rightarrow> nat \<Rightarrow> bool" where
  "isCased ucd c =
     (if c < 128 then (65 \<le> c \<and> c \<le> 90) \<or> (97 \<le> c \<and> c \<le> 122) else cased ucd c)"

text \<open>
  The two context-free exceptions of the default conversion are written out:
  \<^verbatim>\<open>U+0130\<close> becomes \<^verbatim>\<open>U+0069 U+0307\<close>, and the capital sigma \<^verbatim>\<open>U+03A3\<close> becomes the final
  sigma \<^verbatim>\<open>U+03C2\<close> under the condition Final_Sigma and the small sigma \<^verbatim>\<open>U+03C3\<close>
  otherwise. Final_Sigma holds when the sigma is preceded by a cased letter followed by
  any number of case-ignorable characters, and is not followed by any number of
  case-ignorable characters and then a cased letter; \<open>reachesCased\<close> is that test on the
  characters in the order they are met going away from the sigma.
\<close>

definition reachesCased :: "unicodeData \<Rightarrow> nat list \<Rightarrow> bool" where
  "reachesCased ucd cs =
     (list_ex (isCased ucd) (takeWhile (caseIgnorable ucd) cs) \<or>
      (case dropWhile (caseIgnorable ucd) cs of [] \<Rightarrow> False | c # _ \<Rightarrow> isCased ucd c))"

definition finalSigma :: "unicodeData \<Rightarrow> nat list \<Rightarrow> nat list \<Rightarrow> bool" where
  "finalSigma ucd revBefore after = (reachesCased ucd revBefore \<and> \<not> reachesCased ucd after)"

fun lowerFrom :: "unicodeData \<Rightarrow> nat list \<Rightarrow> nat list \<Rightarrow> nat list" where
  "lowerFrom ucd revBefore [] = []"
| "lowerFrom ucd revBefore (c # after) =
     (if c = 304 then [105, 775]
      else if c = 931 then (if finalSigma ucd revBefore after then [962] else [963])
      else [lowercaseMapping ucd c])
     @ lowerFrom ucd (c # revBefore) after"

definition toLowerCase :: "unicodeData \<Rightarrow> nat list \<Rightarrow> nat list" where
  "toLowerCase ucd s = lowerFrom ucd [] s"

text \<open>
  \<^verbatim>\<open>hashTokenAddress\<close>. The SHA-256 hex digest (of the UTF-8 encoding of the string) comes
  from Node's \<^verbatim>\<open>crypto\<close> module, which is not part of the repository: it is the
  parameter \<open>sha256hex\<close>.
\<close>

definition hashTokenAddress :: "unicodeData \<Rightarrow> (nat list \<Rightarrow> string) \<Rightarrow> nat list \<Rightarrow> string" where
  "hashTokenAddress ucd sha256hex addr = sha256hex (toLowerCase ucd (trim addr))"

text \<open>
  The relation of the specification: two strings differ only in surrounding whitespace
  or letter case. It is stated from tables of its own: the whitespace characters of
  Latin-1 (SPACE, TAB, LF, VT, FF, CR, NBSP), and the capital letters of Latin-1 (the
  accented ones grouped by base letter: A, AE, C, E, I, ETH, N, O, O with stroke, U, Y,
  THORN) and the Greek capital sigma, each with its small letter at the same place of
  the second table. Two characters are the same letter when they are equal or one is the capital of
  the other; two strings are related when, after setting aside whitespace at both ends
  of each, the cores are the same letters position by position. A string is normalised
  when it has no whitespace at either end and no capital letter.
\<close>

definition paddingCharacters :: "nat list" where
  "paddingCharacters = [32, 9, 10, 11, 12, 13, 160]"

definition capitalLetters :: "nat list" where
  "capitalLetters =
     map of_char ''ABCDEFGHIJKLMNOPQRSTUVWXYZ'' @
     [192, 193, 194, 195, 196, 197] @ [198] @ [199] @ [200, 201, 202, 203] @
     [204, 205, 206, 207] @ [208] @ [209] @ [210, 211, 212, 213, 214] @ [216] @
     [217, 218, 219, 220] @ [221] @ [222] @
     [931]"

definition smallLetters :: "nat list" where
  "smallLetters =
     map of_char ''abcdefghijklmnopqrstuvwxyz'' @
     [224, 225, 226, 227, 228, 229] @ [230] @ [231] @ [232, 233, 234, 235] @
     [236, 237, 238, 239] @ [240] @ [241] @ [242, 243, 244, 245, 246] @ [248] @
     [249, 250, 251, 252] @ [253] @ [254] @
     [963]"

definition sameLetter :: "nat \<Rightarrow> nat \<Rightarrow> bool" where
  "sameLetter c d =
     (c = d \<or> (c, d) \<in> set (zip capitalLetters smallLetters) \<or>
              (d, c) \<in> set (zip capitalLetters smallLetters))"

definition differOnlyInPaddingOrCase :: "nat list \<Rightarrow> nat list \<Rightarrow> bool" where
  "differOnlyInPaddingOrCase s1 s2 =
     (\<exists>l1 t1 r1 l2 t2 r2.
        s1 = l1 @ t1 @ r1 \<and> s2 = l2 @ t2 @ r2 \<and>
        set (l1 @ r1 @ l2 @ r2) \<subseteq> set paddingCharacters \<and>
        list_all2 sameLetter t1 t2)"

definition latin1 :: "nat list \<Rightarrow> bool" where
  "latin1 s = list_all (\<lambda>c. c < 256) s"

definition unpadded :: "nat list \<Rightarrow> bool" where
  "unpadded n = (n = [] \<or> (hd n \<notin> set paddingCharacters \<and> last n \<notin> set paddingCharacters))"

definition withoutCapitals :: "nat list \<Rightarrow> bool" where
  "withoutCapitals n = list_all (\<lambda>c. c \<notin> set capitalLetters) n"

subsection \<open>The ledger file and its records\<close>

text \<open>
  A persisted record is \<^verbatim>\<open>{hash, ts}\<close>. The timestamp is optional because the code reads
  it as \<^verbatim>\<open>obj.ts || 0\<close>; an absent \<^verbatim>\<open>hash\<close> behaves like the empty string (both are
  falsy and the record is filtered out before its hash is read).
\<close>

record DedupRecord =
  hash :: string
  ts :: "int option"

text \<open>
  What \<^verbatim>\<open>JSON.parse(fs.readFileSync(file))\<close> can give: an exception, a value that is not
  an array, or an array of records.
\<close>

datatype sentFile = Malformed | NotArray | Records "DedupRecord list"

text \<open>
  The file system: the ledger files by path, and the outcomes of the coming calls of
  \<^verbatim>\<open>fs.writeFileSync\<close> (\<open>True\<close>: the call throws; past the end of the list every call
  succeeds). The advisory lock of \<^verbatim>\<open>lockFile\<close>/\<^verbatim>\<open>unlockFile\<close> lives in a separate
  marker file and is free in this sequential model, so it is left out.
\<close>

record fileSystem =
  files :: "string \<rightharpoonup> sentFile"
  writeFaults :: "bool list"

definition getUserSentFile :: "string \<Rightarrow> string" where
  "getUserSentFile userId = ''sent_tokens/'' @ userId @ ''.json''"

definition writeFileSync :: "string \<Rightarrow> DedupRecord list \<Rightarrow> fileSystem \<Rightarrow> bool \<times> fileSystem" where
  "writeFileSync file arr s =
     (case writeFaults s of
        True # rest \<Rightarrow> (False, s\<lparr>writeFaults := rest\<rparr>)
      | False # rest \<Rightarrow> (True, s\<lparr>files := (files s)(file \<mapsto> Records arr), writeFaults := rest\<rparr>)
      | [] \<Rightarrow> (True, s\<lparr>files := (files s)(file \<mapsto> Records arr)\<rparr>))"

text \<open>The loop \<^verbatim>\<open>while (retry < 3) { try { write; break } catch { retry++ } }\<close>.\<close>

function writeWithRetry :: "nat \<Rightarrow> string \<Rightarrow> DedupRecord list \<Rightarrow> fileSystem \<Rightarrow> fileSystem" where
  "writeWithRetry retry file arr s =
     (if retry < 3
      then (case writeFileSync file arr s of
              (True, s') \<Rightarrow> s'
            | (False, s') \<Rightarrow> writeWithRetry (retry + 1) file arr s')
      else s)"
  by pat_completeness auto
termination
  by (relation "measure (\<lambda>(retry, file, arr, s). 3 - retry)") auto

text \<open>\<^verbatim>\<open>obj.ts || 0\<close>, and the filter \<^verbatim>\<open>obj && obj.hash && (now - (obj.ts || 0) < 24*60*60*1000)\<close>.\<close>

definition tsOrZero :: "DedupRecord \<Rightarrow> int" where
  "tsOrZero obj = (case ts obj of None \<Rightarrow> 0 | Some t \<Rightarrow> if t = 0 then 0 else t)"

definition notExpired :: "int \<Rightarrow> DedupRecord \<Rightarrow> bool" where
  "notExpired now obj = (hash obj \<noteq> [] \<and> now - tsOrZero obj < 24 * 60 * 60 * 1000)"

text \<open>
  \<^verbatim>\<open>readSentHashes\<close>, with \<^verbatim>\<open>Date.now()\<close> as the parameter \<open>now\<close>. A parse error is caught
  with \<^verbatim>\<open>hashes\<close> still empty.
\<close>

definition readSentHashes :: "string \<Rightarrow> int \<Rightarrow> fileSystem \<Rightarrow> string set \<times> fileSystem" where
  "readSentHashes userId now s =
     (let file = getUserSentFile userId
      in case files s file of
           None \<Rightarrow> ({}, s)
         | Some Malformed \<Rightarrow> ({}, s)
         | Some content \<Rightarrow>
             (let arr = (case content of Records rs \<Rightarrow> rs | _ \<Rightarrow> []);
                  valid = filter (notExpired now) arr;
                  hashes = map hash valid
              in if length valid \<noteq> length arr
                 then (set hashes, writeWithRetry 0 file valid s)
                 else (set hashes, s)))"

text \<open>\<^verbatim>\<open>appendSentHash\<close>; \<^verbatim>\<open>arr.slice(k)\<close> is \<^term>\<open>drop k arr\<close>.\<close>

definition appendSentHash :: "string \<Rightarrow> string \<Rightarrow> int \<Rightarrow> fileSystem \<Rightarrow> fileSystem" where
  "appendSentHash userId h now s =
     (let file = getUserSentFile userId
      in case files s file of
           Some Malformed \<Rightarrow> s
         | content \<Rightarrow>
             (let arr0 = (case content of Some (Records rs) \<Rightarrow> rs | _ \<Rightarrow> []);
                  arr1 = filter (notExpired now) arr0
              in if list_ex (\<lambda>obj. hash obj = h) arr1 then s
                 else
                   (let arr2 = arr1 @ [\<lparr>hash = h, ts = Some now\<rparr>];
                        arr3 = (if length arr2 \<ge> 3000 then drop 10 arr2 else arr2);
                        arr4 = (if length arr3 > 6000 then drop (length arr3 - 6000) arr3 else arr3)
                    in writeWithRetry 0 file arr4 s)))"


text \<open>Example ledgers: one stale and one fresh record; and 2999 fresh records.\<close>

definition exampleNow :: int where
  "exampleNow = 1700000000000"

definition staleRecord :: DedupRecord where
  "staleRecord = \<lparr>hash = ''stale'', ts = Some (exampleNow - 86400001)\<rparr>"

definition freshRecord :: DedupRecord where
  "freshRecord = \<lparr>hash = ''fresh'', ts = Some (exampleNow - 86399999)\<rparr>"

definition exampleLedger :: fileSystem where
  "exampleLedger = \<lparr>files = [getUserSentFile ''alice'' \<mapsto> Records [staleRecord, freshRecord]],
                    writeFaults = []\<rparr>"

definition fullLedger :: fileSystem where
  "fullLedger = \<lparr>files = [getUserSentFile ''alice'' \<mapsto> Records (replicate 2999 freshRecord)],
                 writeFaults = []\<rparr>"

section \<open>JavaScript numbers\<close>

text \<open>
  Every \<^verbatim>\<open>number\<close> of the program is an IEEE 754 double. A finite double is modelled
  by the rational it denotes; \<open>-0\<close> is identified with \<open>0\<close> (they compare equal, both are
  falsy, and the only operation that tells them apart, division by zero, does not occur:
  the code divides by the literal \<open>100\<close> only). Arithmetic computes the exact rational
  result and rounds it to the nearest double, ties to even (\<open>fl\<close>), with gradual
  underflow and with overflow to the infinities.
\<close>

datatype jsnum = Finite rat | PosInf | NegInf | NaN

fun bitLength :: "nat \<Rightarrow> nat" where
  "bitLength n = (if n = 0 then 0 else Suc (bitLength (n div 2)))"

declare bitLength.simps [simp del]

definition pow2 :: "int \<Rightarrow> rat" where
  "pow2 e = (if 0 \<le> e then 2 ^ nat e else 1 / 2 ^ nat (- e))"

text \<open>The binary exponent \<open>\<lfloor>log\<^sub>2 x\<rfloor>\<close> of a positive rational.\<close>

definition ilog2 :: "rat \<Rightarrow> int" where
  "ilog2 x = (if 1 \<le> x then int (bitLength (nat \<lfloor>x\<rfloor>)) - 1
              else - int (bitLength (nat (\<lceil>1 / x\<rceil> - 1))))"

definition roundHalfEven :: "rat \<Rightarrow> int" where
  "roundHalfEven m =
     (let f = \<lfloor>m\<rfloor>; d = m - of_int f
      in if d < 1 / 2 then f else if 1 / 2 < d then f + 1 else if even f then f else f + 1)"

text \<open>
  Rounding to a double: the unit in the last place is \<open>2\<^sup>q\<close> with
  \<open>q = max (e - 52) (-1074)\<close> for a value of binary exponent \<open>e\<close> (53 significant bits,
  least subnormal \<open>2\<^sup>-\<^sup>1\<^sup>0\<^sup>7\<^sup>4\<close>). The rounded magnitude is \<open>n * 2\<^sup>q\<close>; its binary exponent
  is \<open>q + bitLength n - 1\<close>, and the result overflows when that exceeds \<open>1023\<close>.
\<close>

definition fl :: "rat \<Rightarrow> jsnum" where
  "fl x =
     (if x = 0 then Finite 0
      else
        (let a = \<bar>x\<bar>;
             q = max (ilog2 a - 52) (- 1074);
             n = roundHalfEven (a / pow2 q)
         in if 1024 < q + int (bitLength (nat n)) then (if 0 < x then PosInf else NegInf)
            else Finite (if 0 < x then of_int n * pow2 q else - (of_int n * pow2 q))))"

fun js_neg :: "jsnum \<Rightarrow> jsnum" where
  "js_neg (Finite a) = Finite (- a)"
| "js_neg PosInf = NegInf"
| "js_neg NegInf = PosInf"
| "js_neg NaN = NaN"

fun js_add :: "jsnum \<Rightarrow> jsnum \<Rightarrow> jsnum" where
  "js_add (Finite a) (Finite b) = fl (a + b)"
| "js_add NaN y = NaN"
| "js_add x NaN = NaN"
| "js_add PosInf NegInf = NaN"
| "js_add NegInf PosInf = NaN"
| "js_add PosInf y = PosInf"
| "js_add NegInf y = NegInf"
| "js_add (Finite a) y = y"

fun js_mul :: "jsnum \<Rightarrow> jsnum \<Rightarrow> jsnum" where
  "js_mul (Finite a) (Finite b) = fl (a * b)"
| "js_mul NaN y = NaN"
| "js_mul x NaN = NaN"
| "js_mul (Finite a) y = (if a = 0 then NaN else if 0 < a then y else js_neg y)"
| "js_mul x (Finite b) = (if b = 0 then NaN else if 0 < b then x else js_neg x)"
| "js_mul x y = (if x = y then PosInf else NegInf)"

fun js_div :: "jsnum \<Rightarrow> jsnum \<Rightarrow> jsnum" where
  "js_div (Finite a) (Finite b) =
     (if b = 0 then (if a = 0 then NaN else if 0 < a then PosInf else NegInf)
      else fl (a / b))"
| "js_div NaN y = NaN"
| "js_div x NaN = NaN"
| "js_div (Finite a) y = Finite 0"
| "js_div x (Finite b) = (if 0 \<le> b then x else js_neg x)"
| "js_div x y = NaN"

text \<open>Comparisons: every comparison with \<open>NaN\<close> is false.\<close>

fun js_lt :: "jsnum \<Rightarrow> jsnum \<Rightarrow> bool" where
  "js_lt (Finite a) (Finite b) = (a < b)"
| "js_lt NaN y = False"
| "js_lt x NaN = False"
| "js_lt x NegInf = False"
| "js_lt PosInf y = False"
| "js_lt x y = True"

fun js_le :: "jsnum \<Rightarrow> jsnum \<Rightarrow> bool" where
  "js_le (Finite a) (Finite b) = (a \<le> b)"
| "js_le NaN y = False"
| "js_le x NaN = False"
| "js_le NegInf y = True"
| "js_le x PosInf = True"
| "js_le x y = False"

definition js_gt :: "jsnum \<Rightarrow> jsnum \<Rightarrow> bool" where
  "js_gt x y = js_lt y x"

definition js_ge :: "jsnum \<Rightarrow> jsnum \<Rightarrow> bool" where
  "js_ge x y = js_le y x"

text \<open>Truthiness of a number: \<open>0\<close> and \<open>NaN\<close> are falsy; \<^verbatim>\<open>undefined\<close> (\<open>None\<close>) is falsy.\<close>

fun truthy :: "jsnum \<Rightarrow> bool" where
  "truthy (Finite a) = (a \<noteq> 0)"
| "truthy NaN = False"
| "truthy x = True"

definition truthyOpt :: "jsnum option \<Rightarrow> bool" where
  "truthyOpt v = (case v of None \<Rightarrow> False | Some x \<Rightarrow> truthy x)"

text \<open>A number read from a field or an array slot that is \<^verbatim>\<open>undefined\<close> enters arithmetic as \<open>NaN\<close>.\<close>

definition numOrNaN :: "jsnum option \<Rightarrow> jsnum" where
  "numOrNaN v = (case v of None \<Rightarrow> NaN | Some x \<Rightarrow> x)"

definition numAt :: "jsnum list \<Rightarrow> nat \<Rightarrow> jsnum" where
  "numAt xs i = (if i < length xs then xs ! i else NaN)"


section \<open>The strategy store of \<^verbatim>\<open>userStrategy.ts\<close>\<close>

datatype tokenStatus = Pending | Active | Sold | Error

text \<open>\<^verbatim>\<open>HoneyToken\<close>: the optional fields are options, \<open>None\<close> for \<^verbatim>\<open>undefined\<close>.\<close>

record HoneyToken =
  address :: string
  buyAmount :: jsnum
  profitPercents :: "jsnum list"
  soldPercents :: "jsnum list"
  lastEntryPrice :: "jsnum option"
  lastSellPrice :: "jsnum option"
  finished :: "bool option"
  status :: "tokenStatus option"
  currentStage :: "nat option"
  lastTxId :: "string option"

record HoneySettings =
  tokens :: "HoneyToken list"
  repeatOnEntry :: bool

text \<open>
  The \<^verbatim>\<open>users\<close> object is a \<^verbatim>\<open>Record<string, any>\<close>. Of a user record the code reads
  \<^verbatim>\<open>secret\<close> and \<^verbatim>\<open>honeySettings\<close>; of the stored settings it accepts \<^verbatim>\<open>tokens\<close> only when
  it is an array and \<^verbatim>\<open>repeatOnEntry\<close> only when it is a boolean, so each is an option
  (\<open>None\<close>: absent or of another type).
\<close>

record storedSettings =
  storedTokens :: "HoneyToken list option"
  storedRepeatOnEntry :: "bool option"

record user =
  secret :: "string option"
  honeySettings :: "storedSettings option"

type_synonym users = "string \<rightharpoonup> user"

datatype strategyError = WalletNotFound | MaximumTokens | TokenExists

definition getHoneySettings :: "string \<Rightarrow> users \<Rightarrow> HoneySettings" where
  "getHoneySettings userId us =
     (case us userId of
        None \<Rightarrow> \<lparr>tokens = [], repeatOnEntry = True\<rparr>
      | Some u \<Rightarrow>
          (case honeySettings u of
             None \<Rightarrow> \<lparr>tokens = [], repeatOnEntry = True\<rparr>
           | Some settings \<Rightarrow>
               \<lparr>tokens = (case storedTokens settings of Some toks \<Rightarrow> toks | None \<Rightarrow> []),
                repeatOnEntry = (case storedRepeatOnEntry settings of Some b \<Rightarrow> b | None \<Rightarrow> True)\<rparr>))"

definition setHoneySettings :: "string \<Rightarrow> HoneySettings \<Rightarrow> users \<Rightarrow> users" where
  "setHoneySettings userId settings us =
     (let u = (case us userId of None \<Rightarrow> \<lparr>secret = None, honeySettings = None\<rparr> | Some u \<Rightarrow> u)
      in us(userId \<mapsto> u\<lparr>honeySettings :=
              Some \<lparr>storedTokens = Some (tokens settings),
                    storedRepeatOnEntry = Some (repeatOnEntry settings)\<rparr>\<rparr>))"

text \<open>
  \<^verbatim>\<open>addHoneyToken\<close> returns the error thrown, if any, and the \<^verbatim>\<open>users\<close> object as the call
  leaves it.
\<close>

definition addHoneyToken :: "string \<Rightarrow> HoneyToken \<Rightarrow> users \<Rightarrow> strategyError option \<times> users" where
  "addHoneyToken userId token us =
     (let settings = getHoneySettings userId us
      in if length (tokens settings) \<ge> 10 then (Some MaximumTokens, us)
         else if list_ex (\<lambda>t. address t = address token) (tokens settings)
         then (Some TokenExists, us)
         else (None, setHoneySettings userId (settings\<lparr>tokens := tokens settings @ [token]\<rparr>) us))"

definition removeHoneyToken :: "string \<Rightarrow> string \<Rightarrow> users \<Rightarrow> users" where
  "removeHoneyToken userId tokenAddress us =
     (let settings = getHoneySettings userId us
      in setHoneySettings userId
           (settings\<lparr>tokens := filter (\<lambda>t. address t \<noteq> tokenAddress) (tokens settings)\<rparr>) us)"

definition resetHoneyTokens :: "string \<Rightarrow> users \<Rightarrow> users" where
  "resetHoneyTokens userId us = setHoneySettings userId \<lparr>tokens = [], repeatOnEntry = True\<rparr> us"

section \<open>The staged auto-trading engine\<close>

text \<open>
  The collaborators \<^verbatim>\<open>getPrice\<close>, \<^verbatim>\<open>autoBuy\<close> and \<^verbatim>\<open>autoSell\<close> are parameters, as in the
  source. Each acts on a state \<open>'w\<close> of the outside world and either resolves with a value
  or rejects (\<open>None\<close>); the engine catches every rejection without looking at it.
\<close>

type_synonym 'w priceLookup = "string \<Rightarrow> 'w \<Rightarrow> jsnum option \<times> 'w"
type_synonym 'w tradeAction = "string \<Rightarrow> jsnum \<Rightarrow> string \<Rightarrow> 'w \<Rightarrow> string option \<times> 'w"

text \<open>The condition of the \<^verbatim>\<open>if\<close> at the head of the stage loop's body.\<close>

definition stageCondition :: "jsnum \<Rightarrow> HoneyToken \<Rightarrow> nat \<Rightarrow> bool" where
  "stageCondition currentPrice token i =
     (let target = js_mul (numOrNaN (lastEntryPrice token))
                     (js_add (Finite 1) (js_div (numAt (profitPercents token) i) (Finite 100)))
      in js_ge currentPrice target \<and>
         (\<not> truthyOpt (lastSellPrice token) \<or> js_gt currentPrice (numOrNaN (lastSellPrice token))))"

text \<open>One iteration of the stage loop, for stage \<open>i\<close>.\<close>

definition stageStep ::
  "'w tradeAction \<Rightarrow> string \<Rightarrow> jsnum \<Rightarrow> nat \<Rightarrow> HoneyToken \<Rightarrow> 'w \<Rightarrow> HoneyToken \<times> 'w" where
  "stageStep autoSell userSecret currentPrice i token w =
     (if stageCondition currentPrice token i
      then
        (let sellAmount = js_mul (buyAmount token) (js_div (numAt (soldPercents token) i) (Finite 100))
         in case autoSell (address token) sellAmount userSecret w of
              (Some txId, w') \<Rightarrow>
                (let token' = token\<lparr>lastSellPrice := Some currentPrice,
                                     currentStage := Some (i + 1),
                                     lastTxId := Some txId\<rparr>
                 in if i + 1 \<ge> length (profitPercents token')
                    then (token'\<lparr>finished := Some True, status := Some Sold\<rparr>, w')
                    else (token', w'))
            | (None, w') \<Rightarrow> (token\<lparr>status := Some Error\<rparr>, w'))
      else (token, w))"

text \<open>The loop \<^verbatim>\<open>for (let i = token.currentStage || 0; i < token.profitPercents.length; i++)\<close>.\<close>

function profitStages ::
  "'w tradeAction \<Rightarrow> string \<Rightarrow> jsnum \<Rightarrow> nat \<Rightarrow> HoneyToken \<Rightarrow> 'w \<Rightarrow> HoneyToken \<times> 'w" where
  "profitStages autoSell userSecret currentPrice i token w =
     (if i < length (profitPercents token)
      then (case stageStep autoSell userSecret currentPrice i token w of
              (token', w') \<Rightarrow> profitStages autoSell userSecret currentPrice (i + 1) token' w')
      else (token, w))"
  by pat_completeness auto
termination
  apply (relation "measure (\<lambda>(autoSell, userSecret, currentPrice, i, token, w).
                            length (profitPercents token) - i)")
   apply simp
  apply (auto simp: stageStep_def Let_def split: prod.splits option.splits if_splits)
  done

declare profitStages.simps [simp del]

definition currentStageOr0 :: "HoneyToken \<Rightarrow> nat" where
  "currentStageOr0 token = (case currentStage token of None \<Rightarrow> 0 | Some n \<Rightarrow> n)"

text \<open>
  The body of the loop over the tokens. \<^verbatim>\<open>Array.isArray\<close> holds of both stage arrays of
  a \<^typ>\<open>HoneyToken\<close>; \<^verbatim>\<open>reduce((a, b) => a + b, 0)\<close> is a left fold from \<open>0\<close>; and
  \<^verbatim>\<open>token.lastEntryPrice ?? 0\<close> is \<open>0\<close> for \<^verbatim>\<open>undefined\<close>.
\<close>

definition evalToken ::
  "string \<Rightarrow> bool \<Rightarrow> 'w priceLookup \<Rightarrow> 'w tradeAction \<Rightarrow> 'w tradeAction \<Rightarrow>
   HoneyToken \<Rightarrow> 'w \<Rightarrow> HoneyToken \<times> 'w" where
  "evalToken userSecret repeat getPrice autoBuy autoSell token w =
     (if address token = [] \<or> \<not> truthy (buyAmount token) \<or>
         length (profitPercents token) = 0 \<or> length (soldPercents token) = 0
      then (token\<lparr>status := Some Error\<rparr>, w)
      else if finished token = Some True
      then (token\<lparr>status := Some Sold\<rparr>, w)
      else
        (case getPrice (address token) w of
           (None, w1) \<Rightarrow> (token\<lparr>status := Some Error\<rparr>, w1)
         | (Some currentPrice, w1) \<Rightarrow>
             if \<not> truthyOpt (lastEntryPrice token)
             then
               (case autoBuy (address token) (buyAmount token) userSecret w1 of
                  (Some txId, w2) \<Rightarrow>
                    (token\<lparr>lastEntryPrice := Some currentPrice,
                           status := Some Active,
                           currentStage := Some 0,
                           lastTxId := Some txId\<rparr>, w2)
                | (None, w2) \<Rightarrow> (token\<lparr>status := Some Error\<rparr>, w2))
             else
               (case profitStages autoSell userSecret currentPrice (currentStageOr0 token) token w1 of
                  (token1, w2) \<Rightarrow>
                    (let totalSold = foldl js_add (Finite 0) (soldPercents token1)
                     in if js_ge totalSold (Finite 100) \<and> repeat \<and>
                           js_le currentPrice
                             (case lastEntryPrice token1 of None \<Rightarrow> Finite 0 | Some e \<Rightarrow> e)
                        then (token1\<lparr>finished := Some False,
                                     lastEntryPrice := None,
                                     lastSellPrice := None,
                                     status := Some Pending,
                                     currentStage := Some 0,
                                     lastTxId := None\<rparr>, w2)
                        else (token1, w2)))))"

text \<open>The loop \<^verbatim>\<open>for (const token of settings.tokens)\<close>, in the array's order.\<close>

fun evalTokens ::
  "string \<Rightarrow> bool \<Rightarrow> 'w priceLookup \<Rightarrow> 'w tradeAction \<Rightarrow> 'w tradeAction \<Rightarrow>
   HoneyToken list \<Rightarrow> 'w \<Rightarrow> HoneyToken list \<times> 'w" where
  "evalTokens userSecret repeat getPrice autoBuy autoSell [] w = ([], w)"
| "evalTokens userSecret repeat getPrice autoBuy autoSell (token # rest) w =
     (case evalToken userSecret repeat getPrice autoBuy autoSell token w of
        (token', w1) \<Rightarrow>
          (case evalTokens userSecret repeat getPrice autoBuy autoSell rest w1 of
             (rest', w2) \<Rightarrow> (token' # rest', w2)))"

text \<open>
  \<^verbatim>\<open>executeHoneyStrategy\<close> returns the error it rejects with, if any, the \<^verbatim>\<open>users\<close> object
  and the state of the outside world. The guard \<^verbatim>\<open>!user || !user.secret\<close> holds when the
  user record is absent, or its secret is absent or the empty string.
\<close>

definition executeHoneyStrategy ::
  "string \<Rightarrow> users \<Rightarrow> 'w priceLookup \<Rightarrow> 'w tradeAction \<Rightarrow> 'w tradeAction \<Rightarrow> 'w \<Rightarrow>
   strategyError option \<times> users \<times> 'w" where
  "executeHoneyStrategy userId us getPrice autoBuy autoSell w =
     (case us userId of
        None \<Rightarrow> (Some WalletNotFound, us, w)
      | Some u \<Rightarrow>
          (case secret u of
             None \<Rightarrow> (Some WalletNotFound, us, w)
           | Some k \<Rightarrow>
               if k = [] then (Some WalletNotFound, us, w)
               else
                 (let settings = getHoneySettings userId us
                  in case evalTokens k (repeatOnEntry settings) getPrice autoBuy autoSell
                            (tokens settings) w of
                       (tokens', w') \<Rightarrow>
                         (None, setHoneySettings userId (settings\<lparr>tokens := tokens'\<rparr>) us, w'))))"


section \<open>A scripted market for the worked examples\<close>

text \<open>
  Collaborators for the concrete runs below: the price oracle answers with the market's
  current price (or rejects when there is none), and a trade succeeds or rejects as the
  next scripted outcome says (it succeeds once the script is used up) and is logged with
  its kind, address, amount and outcome.
\<close>

record market =
  price :: "jsnum option"
  tradeOutcomes :: "bool list"
  tradeLog :: "(string \<times> string \<times> jsnum \<times> bool) list"

definition marketGetPrice :: "market priceLookup" where
  "marketGetPrice addr w = (price w, w)"

definition marketTrade :: "string \<Rightarrow> market tradeAction" where
  "marketTrade kind addr amount userSecret w =
     (case tradeOutcomes w of
        False # rest \<Rightarrow>
          (None, w\<lparr>tradeOutcomes := rest, tradeLog := tradeLog w @ [(kind, addr, amount, False)]\<rparr>)
      | True # rest \<Rightarrow>
          (Some (kind @ ''-tx''),
           w\<lparr>tradeOutcomes := rest, tradeLog := tradeLog w @ [(kind, addr, amount, True)]\<rparr>)
      | [] \<Rightarrow> (Some (kind @ ''-tx''), w\<lparr>tradeLog := tradeLog w @ [(kind, addr, amount, True)]\<rparr>))"

definition evaluateAt ::
  "jsnum \<Rightarrow> users \<Rightarrow> market \<Rightarrow> strategyError option \<times> HoneySettings \<times> market" where
  "evaluateAt p us w =
     (case executeHoneyStrategy ''alice'' us marketGetPrice (marketTrade ''buy'') (marketTrade ''sell'')
             (w\<lparr>price := Some p\<rparr>) of
        (e, us', w') \<Rightarrow> (e, getHoneySettings ''alice'' us', w'))"

definition usersWith :: "HoneyToken \<Rightarrow> bool \<Rightarrow> users" where
  "usersWith token repeat =
     [''alice'' \<mapsto> \<lparr>secret = Some ''key'',
                    honeySettings = Some \<lparr>storedTokens = Some [token],
                                           storedRepeatOnEntry = Some repeat\<rparr>\<rparr>]"

definition newToken :: HoneyToken where
  "newToken = \<lparr>address = ''TKN'', buyAmount = Finite 1,
               profitPercents = [Finite 10, Finite 25], soldPercents = [Finite 50, Finite 50],
               lastEntryPrice = None, lastSellPrice = None, finished = None, status = None,
               currentStage = None, lastTxId = None\<rparr>"

definition enteredToken :: HoneyToken where
  "enteredToken = newToken\<lparr>lastEntryPrice := Some (Finite 100), status := Some Active,
                           currentStage := Some 0, lastTxId := Some ''buy-tx''\<rparr>"

definition quiet :: market where
  "quiet = \<lparr>price = None, tradeOutcomes = [], tradeLog = []\<rparr>"



text \<open>
  The token of the specification's example: stages at 10 and 25 percent, half of the
  position sold at each, bought for 1; then the same token entered at price 100, after
  its first stage sold at 111, and after its second stage sold at 126.
\<close>

definition stage1Token :: HoneyToken where
  "stage1Token = enteredToken\<lparr>lastSellPrice := Some (Finite 111), currentStage := Some 1,
                               lastTxId := Some ''sell-tx''\<rparr>"

definition soldToken :: HoneyToken where
  "soldToken = stage1Token\<lparr>lastSellPrice := Some (Finite 126), currentStage := Some 2,
                            finished := Some True, status := Some Sold\<rparr>"

text \<open>
  A half-sold token whose recorded entry price is \<open>0\<close>; a user whose wallet secret is the
  empty string; and a user who already tracks ten tokens, \<^verbatim>\<open>T0\<close> to \<^verbatim>\<open>T9\<close>.
\<close>

definition zeroEntryToken :: HoneyToken where
  "zeroEntryToken = stage1Token\<lparr>lastEntryPrice := Some (Finite 0)\<rparr>"

definition noWalletUsers :: users where
  "noWalletUsers =
     [''alice'' \<mapsto> \<lparr>secret = Some [],
                    honeySettings = Some \<lparr>storedTokens = Some [enteredToken],
                                           storedRepeatOnEntry = Some True\<rparr>\<rparr>]"

definition tenTokens :: "HoneyToken list" where
  "tenTokens = map (\<lambda>a. newToken\<lparr>address := a\<rparr>)
     [''T0'', ''T1'', ''T2'', ''T3'', ''T4'', ''T5'', ''T6'', ''T7'', ''T8'', ''T9'']"

definition fullUsers :: users where
  "fullUsers =
     [''alice'' \<mapsto> \<lparr>secret = Some ''key'',
                    honeySettings = Some \<lparr>storedTokens = Some tenTokens,
                                           storedRepeatOnEntry = Some True\<rparr>\<rparr>]"

section \<open>Properties of the dedup ledger\<close>

subsection \<open>Address normalisation\<close>

text \<open>The two case tables against the ranges of the lowercase mapping.\<close>

lemma capitalLetters_upt: "capitalLetters = [65..<91] @ [192..<215] @ [216..<223] @ [931]"
  by (simp add: capitalLetters_def)

lemma smallLetters_map: "smallLetters = map (\<lambda>c. c + 32) capitalLetters"
  by (simp add: capitalLetters_def smallLetters_def)

lemma capitalLetters_iff:
  "c \<in> set capitalLetters \<longleftrightarrow>
   (65 \<le> c \<and> c \<le> 90) \<or> (192 \<le> c \<and> c \<le> 222 \<and> c \<noteq> 215) \<or> c = 931"
proof -
  have "set capitalLetters = {65..<91} \<union> {192..<215} \<union> {216..<223} \<union> {931}"
    unfolding capitalLetters_upt by (simp only: set_append set_upt list.set Un_assoc)
  then show ?thesis by auto
qed

lemma casePairs_iff:
  "(c, d) \<in> set (zip capitalLetters smallLetters) \<longleftrightarrow> c \<in> set capitalLetters \<and> d = c + 32"
  unfolding smallLetters_map by (auto simp: zip_map2 zip_same_conv_map)

lemma sameLetter_cases:
  "sameLetter c d \<longleftrightarrow>
   c = d \<or> (c \<in> set capitalLetters \<and> d = c + 32) \<or> (d \<in> set capitalLetters \<and> c = d + 32)"
  by (simp add: sameLetter_def casePairs_iff)

lemma lowercaseMapping_latin1:
  "c < 256 \<Longrightarrow> lowercaseMapping ucd c = (if c \<in> set capitalLetters then c + 32 else c)"
  by (auto simp: lowercaseMapping_def capitalLetters_iff)

lemma lowercaseMapping_below: "c < 256 \<Longrightarrow> lowercaseMapping ucd c < 256"
  by (auto simp: lowercaseMapping_def)

lemma sameLetter_lowercase:
  "c < 256 \<Longrightarrow> d < 256 \<Longrightarrow> sameLetter c d \<Longrightarrow> lowercaseMapping ucd c = lowercaseMapping ucd d"
  by (auto simp: sameLetter_cases lowercaseMapping_latin1 capitalLetters_iff)

lemma sameLetter_lowercaseMapping: "c < 256 \<Longrightarrow> sameLetter c (lowercaseMapping ucd c)"
  by (simp add: sameLetter_cases lowercaseMapping_latin1)

lemma lowercaseMapping_small: "c < 256 \<Longrightarrow> lowercaseMapping ucd c \<notin> set capitalLetters"
  by (auto simp: lowercaseMapping_latin1 capitalLetters_iff)

lemma padding_whiteSpace: "c \<in> set paddingCharacters \<Longrightarrow> isWhiteSpace c"
  by (auto simp: isWhiteSpace_def paddingCharacters_def)

lemma whiteSpace_padding: "c < 256 \<Longrightarrow> isWhiteSpace c \<Longrightarrow> c \<in> set paddingCharacters"
  by (auto simp: isWhiteSpace_def paddingCharacters_def)

lemma letters_not_whiteSpace:
  assumes "c \<in> set capitalLetters"
  shows "\<not> isWhiteSpace c" "\<not> isWhiteSpace (c + 32)"
proof -
  from assms consider "65 \<le> c \<and> c \<le> 90" | "192 \<le> c \<and> c \<le> 222" | "c = 931"
    unfolding capitalLetters_iff by blast
  then show "\<not> isWhiteSpace c"
    by cases (simp_all add: isWhiteSpace_def)
  from assms consider "65 \<le> c \<and> c \<le> 90" | "192 \<le> c \<and> c \<le> 222" | "c = 931"
    unfolding capitalLetters_iff by blast
  then show "\<not> isWhiteSpace (c + 32)"
    by cases (simp_all add: isWhiteSpace_def)
qed

lemma sameLetter_whiteSpace: "sameLetter c d \<Longrightarrow> isWhiteSpace c = isWhiteSpace d"
  unfolding sameLetter_cases using letters_not_whiteSpace by blast

lemma sameLetter_padding:
  assumes "sameLetter c d" "c < 256" "d < 256"
  shows "c \<in> set paddingCharacters \<longleftrightarrow> d \<in> set paddingCharacters"
  using sameLetter_whiteSpace [OF assms(1)] assms(2,3) padding_whiteSpace whiteSpace_padding
  by blast

lemma lowerFrom_latin1: "latin1 s \<Longrightarrow> lowerFrom ucd before s = map (lowercaseMapping ucd) s"
  by (induction s arbitrary: before) (auto simp: latin1_def)

lemma toLowerCase_latin1: "latin1 s \<Longrightarrow> toLowerCase ucd s = map (lowercaseMapping ucd) s"
  by (simp add: toLowerCase_def lowerFrom_latin1)

lemma dropWhile_related:
  assumes "list_all2 R xs ys" and "\<And>x y. R x y \<Longrightarrow> P x = P y"
  shows "list_all2 R (dropWhile P xs) (dropWhile P ys)"
  using assms by (induction rule: list_all2_induct) auto

lemma dropWhile_all_prefix: "list_all P xs \<Longrightarrow> dropWhile P (xs @ ys) = dropWhile P ys"
  by (induction xs) auto

lemma trim_padding:
  assumes "list_all isWhiteSpace l" "list_all isWhiteSpace r"
  shows "trim (l @ t @ r) = trim t"
proof -
  have a: "dropWhile isWhiteSpace (l @ t @ r) = dropWhile isWhiteSpace (t @ r)"
    using assms(1) by (rule dropWhile_all_prefix)
  have "list_all isWhiteSpace (rev r)" using assms(2) by (simp add: list_all_iff)
  then have b: "dropWhile isWhiteSpace (rev r @ ys) = dropWhile isWhiteSpace ys" for ys
    by (rule dropWhile_all_prefix)
  show ?thesis
  proof (cases "list_all isWhiteSpace t")
    case True
    then have h: "dropWhile isWhiteSpace (t @ r) = []" "dropWhile isWhiteSpace t = []"
      using assms(2) by (auto simp: list_all_iff)
    show ?thesis by (simp only: trim_def a h)
  next
    case False
    then have "dropWhile isWhiteSpace (t @ r) = dropWhile isWhiteSpace t @ r"
      by (auto simp: list_all_iff dropWhile_append1)
    then show ?thesis by (simp add: trim_def a b)
  qed
qed

lemma trim_related:
  assumes "list_all2 sameLetter t1 t2"
  shows "list_all2 sameLetter (trim t1) (trim t2)"
  unfolding trim_def
  by (intro dropWhile_related iffD2 [OF list_all2_rev] assms sameLetter_whiteSpace)

lemma set_trim: "set (trim s) \<subseteq> set s"
  unfolding trim_def by (auto dest!: set_dropWhileD)

lemma trim_split:
  "\<exists>l r. s = l @ trim s @ r \<and> list_all isWhiteSpace l \<and> list_all isWhiteSpace r"
proof -
  define d where "d = dropWhile isWhiteSpace s"
  have "rev (dropWhile isWhiteSpace (rev d)) @ rev (takeWhile isWhiteSpace (rev d)) =
        rev (takeWhile isWhiteSpace (rev d) @ dropWhile isWhiteSpace (rev d))"
    by (simp only: rev_append)
  also have "\<dots> = rev (rev d)" by (simp only: takeWhile_dropWhile_id)
  also have "\<dots> = d" by simp
  finally have "d = trim s @ rev (takeWhile isWhiteSpace (rev d))"
    by (simp add: trim_def d_def)
  moreover have "s = takeWhile isWhiteSpace s @ d"
    by (simp add: d_def)
  ultimately have "s = takeWhile isWhiteSpace s @ trim s @ rev (takeWhile isWhiteSpace (rev d))"
    by simp
  moreover have "list_all isWhiteSpace (takeWhile isWhiteSpace s)"
    by (auto simp: list_all_iff dest: set_takeWhileD)
  moreover have "list_all isWhiteSpace (rev (takeWhile isWhiteSpace (rev d)))"
    by (auto simp: list_all_iff dest: set_takeWhileD)
  ultimately show ?thesis by blast
qed

lemma last_dropWhile: "dropWhile P xs \<noteq> [] \<Longrightarrow> last (dropWhile P xs) = last xs"
  by (induction xs) (auto split: if_splits)

lemma trim_ends:
  assumes "trim s \<noteq> []"
  shows "\<not> isWhiteSpace (hd (trim s)) \<and> \<not> isWhiteSpace (last (trim s))"
proof -
  define d where "d = dropWhile isWhiteSpace s"
  define e where "e = dropWhile isWhiteSpace (rev d)"
  have t: "trim s = rev e" by (simp add: trim_def d_def e_def)
  then have e: "e \<noteq> []" using assms by simp
  then have d: "d \<noteq> []" unfolding e_def by auto
  have "\<not> isWhiteSpace (hd e)" using e unfolding e_def by (rule hd_dropWhile)
  then have l: "\<not> isWhiteSpace (last (trim s))" using e by (simp add: t last_rev)
  have "last e = last (rev d)" using e unfolding e_def by (rule last_dropWhile)
  then have "hd (trim s) = hd d" using e d by (simp add: t hd_rev last_rev)
  moreover have "\<not> isWhiteSpace (hd d)" using d unfolding d_def by (rule hd_dropWhile)
  ultimately show ?thesis using l by simp
qed


lemma latin1_trim: "latin1 s \<Longrightarrow> latin1 (trim s)"
  using set_trim [of s] by (auto simp: latin1_def list_all_iff)

lemma lowercase_related:
  "list_all2 sameLetter xs ys \<Longrightarrow> latin1 xs \<Longrightarrow> latin1 ys \<Longrightarrow>
   map (lowercaseMapping ucd) xs = map (lowercaseMapping ucd) ys"
  by (induction rule: list_all2_induct) (auto simp: latin1_def intro: sameLetter_lowercase)

lemma related_lowercase:
  "latin1 xs \<Longrightarrow> list_all2 sameLetter xs (map (lowercaseMapping ucd) xs)"
  by (induction xs) (auto simp: latin1_def intro: sameLetter_lowercaseMapping)

lemma normalised_related:
  assumes "latin1 s"
  shows "differOnlyInPaddingOrCase s (toLowerCase ucd (trim s))"
proof -
  obtain l r where s: "s = l @ trim s @ r" and w: "list_all isWhiteSpace l" "list_all isWhiteSpace r"
    using trim_split [of s] by blast
  have "set s = set l \<union> (set (trim s) \<union> set r)"
    using arg_cong [OF s, of set] by (simp only: set_append)
  then have "set l \<subseteq> set s" "set r \<subseteq> set s"
    by blast+
  then have below: "\<forall>c\<in>set (l @ r). c < 256"
    using assms by (auto simp: latin1_def list_all_iff)
  have pad: "set (l @ r @ [] @ []) \<subseteq> set paddingCharacters"
    using w below by (auto simp: list_all_iff intro: whiteSpace_padding)
  have n: "toLowerCase ucd (trim s) = map (lowercaseMapping ucd) (trim s)"
    using assms by (simp add: toLowerCase_latin1 latin1_trim)
  have rel: "list_all2 sameLetter (trim s) (toLowerCase ucd (trim s))"
    unfolding n using assms by (intro related_lowercase latin1_trim)
  have "toLowerCase ucd (trim s) = [] @ toLowerCase ucd (trim s) @ []"
    by simp
  with s pad rel show ?thesis
    unfolding differOnlyInPaddingOrCase_def by blast
qed

lemma normalised_unpadded:
  assumes "latin1 s"
  shows "unpadded (toLowerCase ucd (trim s))"
proof (cases "trim s = []")
  case True
  then show ?thesis by (simp add: unpadded_def toLowerCase_def)
next
  case False
  have lat: "latin1 (trim s)" using assms by (rule latin1_trim)
  have n: "toLowerCase ucd (trim s) = map (lowercaseMapping ucd) (trim s)"
    using lat by (rule toLowerCase_latin1)
  have keep: "lowercaseMapping ucd c \<notin> set paddingCharacters"
    if "c \<in> set (trim s)" "\<not> isWhiteSpace c" for c
  proof -
    have c: "c < 256" using lat that(1) by (auto simp: latin1_def list_all_iff)
    have "c \<notin> set paddingCharacters" using that(2) padding_whiteSpace by blast
    then show ?thesis
      using sameLetter_padding [OF sameLetter_lowercaseMapping [OF c] c lowercaseMapping_below [OF c]]
      by simp
  qed
  have "hd (trim s) \<in> set (trim s)" "last (trim s) \<in> set (trim s)"
    using False by simp_all
  then have "lowercaseMapping ucd (hd (trim s)) \<notin> set paddingCharacters"
            "lowercaseMapping ucd (last (trim s)) \<notin> set paddingCharacters"
    using trim_ends [OF False] keep by blast+
  then show ?thesis
    using False by (simp add: unpadded_def n hd_map last_map)
qed

lemma normalised_withoutCapitals:
  assumes "latin1 s"
  shows "withoutCapitals (toLowerCase ucd (trim s))"
proof -
  have lat: "latin1 (trim s)" using assms by (rule latin1_trim)
  then show ?thesis
    unfolding toLowerCase_latin1 [OF lat] withoutCapitals_def
    using lowercaseMapping_small by (fastforce simp: latin1_def list_all_iff)
qed

text \<open>
  Claim C8, amended. \<^verbatim>\<open>hashTokenAddress\<close> digests the trimmed, lower-cased address: on
  strings of Latin-1 characters (code points below 256), two strings that differ only
  in surrounding whitespace or in letter case have the same digest, whatever the digest
  function and the rest of the Unicode tables are; and the digest is taken of a
  normalised string (no whitespace at either end, no capital letter) that differs from
  the address only in surrounding whitespace and letter case.
\<close>

theorem hashTokenAddress_latin1:
  assumes "latin1 s1" and "latin1 s2" and "differOnlyInPaddingOrCase s1 s2"
  shows "hashTokenAddress ucd sha256hex s1 = hashTokenAddress ucd sha256hex s2 \<and>
         (\<exists>n. hashTokenAddress ucd sha256hex s1 = sha256hex n \<and>
              differOnlyInPaddingOrCase s1 n \<and> unpadded n \<and> withoutCapitals n)"
proof -
  from assms(3) obtain l1 t1 r1 l2 t2 r2 where
    s: "s1 = l1 @ t1 @ r1" "s2 = l2 @ t2 @ r2" and
    p: "set (l1 @ r1 @ l2 @ r2) \<subseteq> set paddingCharacters" and
    c: "list_all2 sameLetter t1 t2"
    unfolding differOnlyInPaddingOrCase_def by blast
  have w: "list_all isWhiteSpace l1" "list_all isWhiteSpace r1"
          "list_all isWhiteSpace l2" "list_all isWhiteSpace r2"
    using p by (auto simp: list_all_iff intro: padding_whiteSpace)
  have t: "trim s1 = trim t1" "trim s2 = trim t2"
    using s w by (simp_all add: trim_padding)
  have rel: "list_all2 sameLetter (trim s1) (trim s2)"
    unfolding t using c by (rule trim_related)
  have lat: "latin1 (trim s1)" "latin1 (trim s2)"
    using assms(1,2) by (simp_all add: latin1_trim)
  have "toLowerCase ucd (trim s1) = toLowerCase ucd (trim s2)"
    unfolding toLowerCase_latin1 [OF lat(1)] toLowerCase_latin1 [OF lat(2)]
    using rel lat by (rule lowercase_related)
  then have same: "hashTokenAddress ucd sha256hex s1 = hashTokenAddress ucd sha256hex s2"
    by (simp add: hashTokenAddress_def)
  have "hashTokenAddress ucd sha256hex s1 = sha256hex (toLowerCase ucd (trim s1))"
    by (simp add: hashTokenAddress_def)
  with normalised_related [OF assms(1)] normalised_unpadded [OF assms(1)]
    normalised_withoutCapitals [OF assms(1)]
  have "\<exists>n. hashTokenAddress ucd sha256hex s1 = sha256hex n \<and>
            differOnlyInPaddingOrCase s1 n \<and> unpadded n \<and> withoutCapitals n"
    by blast
  with same show ?thesis by (rule conjI)
qed

theorem hashTokenAddress_latin1_witness:
  "latin1 (map of_char ''  So1aNa \<newline>'') \<and>
   latin1 (map of_char ''sO1Ana'') \<and>
   differOnlyInPaddingOrCase (map of_char ''  So1aNa \<newline>'') (map of_char ''sO1Ana'') \<and>
   hashTokenAddress \<lparr>simpleLowercase = \<lambda>c. c, cased = \<lambda>c. False, caseIgnorable = \<lambda>c. False\<rparr>
     (map char_of) (map of_char ''  So1aNa \<newline>'') =
   hashTokenAddress \<lparr>simpleLowercase = \<lambda>c. c, cased = \<lambda>c. False, caseIgnorable = \<lambda>c. False\<rparr>
     (map char_of) (map of_char ''sO1Ana'') \<and>
   toLowerCase \<lparr>simpleLowercase = \<lambda>c. c, cased = \<lambda>c. False, caseIgnorable = \<lambda>c. False\<rparr>
     (trim (map of_char ''  So1aNa \<newline>'')) = map of_char ''so1ana''"
proof -
  have a: "latin1 (map of_char ''  So1aNa \<newline>'')" "latin1 (map of_char ''sO1Ana'')"
    by (simp_all add: latin1_def)
  have "map of_char ''  So1aNa \<newline>'' = map of_char ''  '' @ map of_char ''So1aNa'' @ map of_char '' \<newline>''"
       "map of_char ''sO1Ana'' = [] @ map of_char ''sO1Ana'' @ []"
       "set (map of_char ''  '' @ map of_char '' \<newline>'' @ [] @ []) \<subseteq> set paddingCharacters"
       "list_all2 sameLetter (map of_char ''So1aNa'') (map of_char ''sO1Ana'')"
    by (simp_all add: paddingCharacters_def sameLetter_cases capitalLetters_iff)
  then have d: "differOnlyInPaddingOrCase (map of_char ''  So1aNa \<newline>'') (map of_char ''sO1Ana'')"
    unfolding differOnlyInPaddingOrCase_def by blast
  have v: "toLowerCase \<lparr>simpleLowercase = \<lambda>c. c, cased = \<lambda>c. False, caseIgnorable = \<lambda>c. False\<rparr>
     (trim (map of_char ''  So1aNa \<newline>'')) = map of_char ''so1ana''"
    by (simp add: toLowerCase_def trim_def isWhiteSpace_def lowercaseMapping_def)
  from hashTokenAddress_latin1 [OF a d, THEN conjunct1] a d v show ?thesis
    by (intro conjI)
qed

text \<open>
  Claim C8 as the specification states it, for all strings, fails beyond Latin-1:
  \<^verbatim>\<open>toLowerCase\<close> turns the capital sigma at the end of \<^verbatim>\<open>U+0041 U+03A3\<close> into the final
  sigma \<^verbatim>\<open>U+03C2\<close>, while the small sigma of \<^verbatim>\<open>U+0061 U+03C3\<close> stays \<^verbatim>\<open>U+03C3\<close>. The two
  strings differ only in letter case, their normalised forms differ, and their digests
  are equal only if the digest function collides on the two normalised forms.
\<close>

theorem capital_sigma_breaks_normalisation:
  "differOnlyInPaddingOrCase [65, 931] [97, 963] \<and>
   (\<forall>ucd. toLowerCase ucd (trim [65, 931]) = [97, 962]) \<and>
   (\<forall>ucd. toLowerCase ucd (trim [97, 963]) = [97, 963]) \<and>
   (\<forall>ucd sha256hex.
      hashTokenAddress ucd sha256hex [65, 931] = hashTokenAddress ucd sha256hex [97, 963] \<longleftrightarrow>
      sha256hex [97, 962] = sha256hex [97, 963]) \<and>
   (\<forall>ucd. \<not> (\<forall>sha256hex.
      hashTokenAddress ucd sha256hex [65, 931] = hashTokenAddress ucd sha256hex [97, 963]))"
proof -
  have "[65, 931] = [] @ [65, 931] @ []" "[97, 963] = [] @ [97, 963] @ []"
       "set ([] @ [] @ [] @ []) \<subseteq> set paddingCharacters"
       "list_all2 sameLetter [65, 931] [97, 963]"
    by (simp_all add: sameLetter_cases capitalLetters_iff)
  then have d: "differOnlyInPaddingOrCase [65, 931] [97, 963]"
    unfolding differOnlyInPaddingOrCase_def by blast
  have final: "toLowerCase ucd (trim [65, 931]) = [97, 962]" for ucd
    by (simp add: toLowerCase_def trim_def isWhiteSpace_def lowercaseMapping_def finalSigma_def
          reachesCased_def isCased_def)
  have small: "toLowerCase ucd (trim [97, 963]) = [97, 963]" for ucd
    by (simp add: toLowerCase_def trim_def isWhiteSpace_def lowercaseMapping_def finalSigma_def
          reachesCased_def isCased_def)
  have collide: "hashTokenAddress ucd sha256hex [65, 931] = hashTokenAddress ucd sha256hex [97, 963] \<longleftrightarrow>
      sha256hex [97, 962] = sha256hex [97, 963]" for ucd sha256hex
    by (simp only: hashTokenAddress_def final small)
  have "\<not> (\<forall>sha256hex :: nat list \<Rightarrow> string.
      hashTokenAddress ucd sha256hex [65, 931] = hashTokenAddress ucd sha256hex [97, 963])" for ucd
  proof
    assume "\<forall>sha256hex :: nat list \<Rightarrow> string.
      hashTokenAddress ucd sha256hex [65, 931] = hashTokenAddress ucd sha256hex [97, 963]"
    then have "hashTokenAddress ucd (map char_of) [65, 931] = hashTokenAddress ucd (map char_of) [97, 963]"
      by blast
    then show False unfolding collide by simp
  qed
  with d final small collide show ?thesis by blast
qed

subsection \<open>Reading and appending\<close>

lemma writeWithRetry_files:
  assumes "take 3 (writeFaults s) \<noteq> [True, True, True]"
  shows "files (writeWithRetry 0 file arr s) = (files s)(file \<mapsto> Records arr)"
  using assms
  by (auto simp: writeFileSync_def split: list.splits bool.splits)

lemma readSentHashes_result:
  assumes "files s (getUserSentFile userId) = Some (Records recs)"
  shows "fst (readSentHashes userId now s) = hash ` {r \<in> set recs. notExpired now r}"
  using assms by (auto simp: readSentHashes_def Let_def)

lemma appendSentHash_files:
  assumes "files s (getUserSentFile userId) \<noteq> Some Malformed"
      and "valid = filter (notExpired now)
                     (case files s (getUserSentFile userId) of Some (Records rs) \<Rightarrow> rs | _ \<Rightarrow> [])"
      and "h \<notin> hash ` set valid"
      and "take 3 (writeFaults s) \<noteq> [True, True, True]"
      and "arr2 = valid @ [\<lparr>hash = h, ts = Some now\<rparr>]"
      and "arr3 = (if length arr2 \<ge> 3000 then drop 10 arr2 else arr2)"
  shows "files (appendSentHash userId h now s) (getUserSentFile userId) =
         Some (Records (if length arr3 > 6000 then drop (length arr3 - 6000) arr3 else arr3))"
proof -
  have nd: "\<not> list_ex (\<lambda>obj. hash obj = h) valid"
    using assms(3) by (auto simp: list_ex_iff)
  show ?thesis
  proof (cases "files s (getUserSentFile userId)")
    case None
    then show ?thesis
      using nd assms(2,5,6) writeWithRetry_files [OF assms(4)]
      by (simp add: appendSentHash_def Let_def del: writeWithRetry.simps)
  next
    case (Some c)
    then show ?thesis
      using nd assms(1,2,5,6) writeWithRetry_files [OF assms(4)]
      by (cases c) (simp_all add: appendSentHash_def Let_def del: writeWithRetry.simps)
  qed
qed

text \<open>
  Claim C5. On a ledger of well-formed records (each with a digest, no digest twice),
  \<^verbatim>\<open>readSentHashes\<close> returns the digests of the records younger than 86 400 000 ms:
  a record stamped \<open>t\<close> is discarded exactly when \<open>now - t \<ge> 86400000\<close>. A record stamped
  \<open>now - 86400001\<close> is absent from the result and one stamped \<open>now - 86399999\<close> is present.
\<close>

theorem readSentHashes_ttl:
  assumes f: "files s (getUserSentFile userId) = Some (Records recs)"
      and wf: "\<forall>r\<in>set recs. hash r \<noteq> []" "distinct (map hash recs)"
  shows "fst (readSentHashes userId now s) = hash ` {r \<in> set recs. \<not> (now - tsOrZero r \<ge> 86400000)} \<and>
         (\<forall>r\<in>set recs. \<forall>t. ts r = Some t \<longrightarrow>
            (hash r \<in> fst (readSentHashes userId now s) \<longleftrightarrow> \<not> (now - t \<ge> 86400000))) \<and>
         (\<forall>r\<in>set recs. ts r = Some (now - 86400001) \<longrightarrow>
            hash r \<notin> fst (readSentHashes userId now s)) \<and>
         (\<forall>r\<in>set recs. ts r = Some (now - 86399999) \<longrightarrow>
            hash r \<in> fst (readSentHashes userId now s))"
proof -
  have inj: "\<And>r r'. r \<in> set recs \<Longrightarrow> r' \<in> set recs \<Longrightarrow> hash r = hash r' \<Longrightarrow> r = r'"
    using wf(2) by (meson distinct_map inj_onD)
  have all: "fst (readSentHashes userId now s) =
             hash ` {r \<in> set recs. \<not> (now - tsOrZero r \<ge> 86400000)}"
    using wf(1) unfolding readSentHashes_result [OF f] notExpired_def by auto
  have key: "hash r \<in> fst (readSentHashes userId now s) \<longleftrightarrow> now - tsOrZero r < 86400000"
    if r: "r \<in> set recs" for r
  proof
    assume "hash r \<in> fst (readSentHashes userId now s)"
    then obtain x where x: "x \<in> set recs" "\<not> (now - tsOrZero x \<ge> 86400000)" "hash r = hash x"
      unfolding all by auto
    from inj [OF r x(1) x(3)] x(2) show "now - tsOrZero r < 86400000" by simp
  next
    assume "now - tsOrZero r < 86400000"
    then show "hash r \<in> fst (readSentHashes userId now s)"
      unfolding all using r by auto
  qed
  have "\<forall>r\<in>set recs. \<forall>t. ts r = Some t \<longrightarrow>
           (hash r \<in> fst (readSentHashes userId now s) \<longleftrightarrow> \<not> (now - t \<ge> 86400000))"
    using key by (auto simp: tsOrZero_def)
  moreover have "\<forall>r\<in>set recs. ts r = Some (now - 86400001) \<longrightarrow>
                   hash r \<notin> fst (readSentHashes userId now s)"
    using key by (auto simp: tsOrZero_def)
  moreover have "\<forall>r\<in>set recs. ts r = Some (now - 86399999) \<longrightarrow>
                   hash r \<in> fst (readSentHashes userId now s)"
    using key by (auto simp: tsOrZero_def)
  ultimately show ?thesis using all by blast
qed

theorem readSentHashes_ttl_witness:
  "files exampleLedger (getUserSentFile ''alice'') = Some (Records [staleRecord, freshRecord]) \<and>
   hash staleRecord \<noteq> [] \<and> hash freshRecord \<noteq> [] \<and>
   distinct (map hash [staleRecord, freshRecord]) \<and>
   ts staleRecord = Some (exampleNow - 86400001) \<and>
   ts freshRecord = Some (exampleNow - 86399999) \<and>
   hash staleRecord \<notin> fst (readSentHashes ''alice'' exampleNow exampleLedger) \<and>
   hash freshRecord \<in> fst (readSentHashes ''alice'' exampleNow exampleLedger)"
proof -
  have f: "files exampleLedger (getUserSentFile ''alice'') = Some (Records [staleRecord, freshRecord])"
    by (simp add: exampleLedger_def)
  have wf: "\<forall>r\<in>set [staleRecord, freshRecord]. hash r \<noteq> []"
           "distinct (map hash [staleRecord, freshRecord])"
    by (simp_all add: staleRecord_def freshRecord_def)
  have t: "ts staleRecord = Some (exampleNow - 86400001)"
          "ts freshRecord = Some (exampleNow - 86399999)"
    by (simp_all add: staleRecord_def freshRecord_def)
  note ttl = readSentHashes_ttl [OF f wf, of exampleNow]
  from ttl have "\<forall>r\<in>set [staleRecord, freshRecord]. ts r = Some (exampleNow - 86400001) \<longrightarrow>
                   hash r \<notin> fst (readSentHashes ''alice'' exampleNow exampleLedger)"
    by blast
  then have stale: "hash staleRecord \<notin> fst (readSentHashes ''alice'' exampleNow exampleLedger)"
    using t(1) by simp
  from ttl have "\<forall>r\<in>set [staleRecord, freshRecord]. ts r = Some (exampleNow - 86399999) \<longrightarrow>
                   hash r \<in> fst (readSentHashes ''alice'' exampleNow exampleLedger)"
    by blast
  then have fresh: "hash freshRecord \<in> fst (readSentHashes ''alice'' exampleNow exampleLedger)"
    using t(2) by simp
  from f wf t stale fresh show ?thesis
    by simp
qed

text \<open>
  Claim C6. When an append adds a record and the write goes through, the capacity
  policy runs on the pruned ledger with the new record at its end: below 3000 records
  nothing is dropped; from 3000 on the 10 oldest are dropped, whatever their age (all of
  them passed the expiry filter); and if more than 6000 are left after that, only the
  most recent 6000 are kept. An append that brings the count to exactly 3000 drops the
  10 oldest and leaves 2990.
\<close>

theorem appendSentHash_capacity:
  assumes ok: "files s (getUserSentFile userId) \<noteq> Some Malformed"
      and valid: "valid = filter (notExpired now)
                     (case files s (getUserSentFile userId) of Some (Records rs) \<Rightarrow> rs | _ \<Rightarrow> [])"
      and fresh: "h \<notin> hash ` set valid"
      and wr: "take 3 (writeFaults s) \<noteq> [True, True, True]"
      and appended: "appended = valid @ [\<lparr>hash = h, ts = Some now\<rparr>]"
  shows "\<exists>new. files (appendSentHash userId h now s) (getUserSentFile userId) = Some (Records new) \<and>
           (length appended < 3000 \<longrightarrow> new = appended) \<and>
           (3000 \<le> length appended \<and> length appended - 10 \<le> 6000 \<longrightarrow> new = drop 10 appended) \<and>
           (length appended = 3000 \<longrightarrow>
              new = drop 10 valid @ [\<lparr>hash = h, ts = Some now\<rparr>] \<and> length new = 2990) \<and>
           (6000 < length appended - 10 \<longrightarrow>
              new = drop (length appended - 6000) appended \<and> length new = 6000)"
proof -
  define arr3 where "arr3 = (if length appended \<ge> 3000 then drop 10 appended else appended)"
  define new where "new = (if length arr3 > 6000 then drop (length arr3 - 6000) arr3 else arr3)"
  have stored: "files (appendSentHash userId h now s) (getUserSentFile userId) = Some (Records new)"
    unfolding new_def by (rule appendSentHash_files [OF ok valid fresh wr appended arr3_def])
  have 1: "length appended < 3000 \<longrightarrow> new = appended"
    by (simp add: new_def arr3_def)
  have 2: "3000 \<le> length appended \<and> length appended - 10 \<le> 6000 \<longrightarrow> new = drop 10 appended"
    by (simp add: new_def arr3_def)
  have 3: "length appended = 3000 \<longrightarrow>
             new = drop 10 valid @ [\<lparr>hash = h, ts = Some now\<rparr>] \<and> length new = 2990"
    by (auto simp: new_def arr3_def appended)
  have 4: "6000 < length appended - 10 \<longrightarrow>
             new = drop (length appended - 6000) appended \<and> length new = 6000"
    by (auto simp: new_def arr3_def)
  from stored 1 2 3 4 show ?thesis by blast
qed

theorem appendSentHash_capacity_witness:
  "files (appendSentHash ''alice'' ''new'' exampleNow fullLedger) (getUserSentFile ''alice'') =
     Some (Records (replicate 2989 freshRecord @ [\<lparr>hash = ''new'', ts = Some exampleNow\<rparr>]))"
proof -
  have ok: "files fullLedger (getUserSentFile ''alice'') \<noteq> Some Malformed"
    by (simp add: fullLedger_def)
  have valid: "replicate 2999 freshRecord = filter (notExpired exampleNow)
      (case files fullLedger (getUserSentFile ''alice'') of Some (Records rs) \<Rightarrow> rs | _ \<Rightarrow> [])"
    by (simp add: fullLedger_def notExpired_def tsOrZero_def freshRecord_def exampleNow_def)
  have fresh: "''new'' \<notin> hash ` set (replicate 2999 freshRecord)"
    by (simp add: freshRecord_def)
  have wr: "take 3 (writeFaults fullLedger) \<noteq> [True, True, True]"
    by (simp add: fullLedger_def)
  from appendSentHash_capacity [OF ok valid fresh wr refl]
  show ?thesis by (auto simp: drop_replicate)
qed

text \<open>
  Claim C7. Appending a digest that the ledger already holds in a record that has not
  expired changes nothing: the file, and with it the ledger's digest set, is left as it
  was. So the second of two appends of the same digest adds nothing.
\<close>

theorem appendSentHash_idempotent:
  assumes "files s (getUserSentFile userId) = Some (Records recs)"
      and "h \<in> hash ` {r \<in> set recs. notExpired now r}"
  shows "appendSentHash userId h now s = s \<and>
         fst (readSentHashes userId now (appendSentHash userId h now s)) =
         fst (readSentHashes userId now s)"
  using assms by (auto simp: appendSentHash_def Let_def list_ex_iff)

theorem appendSentHash_idempotent_witness:
  "files exampleLedger (getUserSentFile ''alice'') = Some (Records [staleRecord, freshRecord]) \<and>
   hash freshRecord \<in> hash ` {r \<in> set [staleRecord, freshRecord]. notExpired exampleNow r} \<and>
   appendSentHash ''alice'' (hash freshRecord) exampleNow exampleLedger = exampleLedger"
proof -
  have f: "files exampleLedger (getUserSentFile ''alice'') = Some (Records [staleRecord, freshRecord])"
    by (simp add: exampleLedger_def)
  have p: "hash freshRecord \<in> hash ` {r \<in> set [staleRecord, freshRecord]. notExpired exampleNow r}"
    by (rule image_eqI [of _ _ freshRecord])
       (simp_all add: notExpired_def tsOrZero_def freshRecord_def exampleNow_def)
  from appendSentHash_idempotent [OF f p] f p show ?thesis by simp
qed

section \<open>The rounding function rounds to nearest, ties to even\<close>

text \<open>
  \<open>bitLength\<close> and \<open>ilog2\<close> compute what their names say, so that \<open>2\<^sup>q\<close> in \<open>fl\<close> is the
  spacing of the doubles around \<open>x\<close>; a finite \<open>fl x\<close> is a multiple of that spacing at
  most half a spacing away from \<open>x\<close>, with an even multiple chosen at a tie; and the
  overflow test of \<open>fl\<close> says that the rounded magnitude has reached \<open>2\<^sup>1\<^sup>0\<^sup>2\<^sup>4\<close>.
\<close>

lemma bitLength_upper: "n < 2 ^ bitLength n"
proof (induction n rule: bitLength.induct)
  case (1 n)
  show ?case
  proof (cases "n = 0")
    case True
    then show ?thesis by simp
  next
    case False
    then have "n div 2 < 2 ^ bitLength (n div 2)"
      using 1 by simp
    moreover have "bitLength n = Suc (bitLength (n div 2))"
      using False by (subst bitLength.simps) simp
    ultimately show ?thesis by simp
  qed
qed

lemma bitLength_pos: "0 < n \<Longrightarrow> 0 < bitLength n"
  by (subst bitLength.simps) simp

lemma bitLength_lower: "0 < n \<Longrightarrow> 2 ^ (bitLength n - 1) \<le> n"
proof (induction n rule: bitLength.induct)
  case (1 n)
  then have pos: "n \<noteq> 0" by simp
  have step: "bitLength n = Suc (bitLength (n div 2))"
    using pos by (subst bitLength.simps) simp
  show ?case
  proof (cases "n div 2 = 0")
    case True
    then have "bitLength (n div 2) = 0" by (simp add: bitLength.simps)
    then show ?thesis using step 1(2) by simp
  next
    case False
    then have "2 ^ (bitLength (n div 2) - 1) \<le> n div 2"
      using 1(1) [OF pos] by simp
    moreover have "bitLength (n div 2) = Suc (bitLength (n div 2) - 1)"
      using bitLength_pos [of "n div 2"] False by simp
    ultimately have "2 ^ bitLength (n div 2) \<le> 2 * (n div 2)"
      by (metis power_Suc mult_le_mono2)
    then show ?thesis using step by simp
  qed
qed

lemma roundHalfEven_nearest: "\<bar>of_int (roundHalfEven m) - m\<bar> \<le> 1 / 2"
proof -
  have "of_int \<lfloor>m\<rfloor> \<le> m" "m < of_int \<lfloor>m\<rfloor> + 1"
    by linarith+
  then show ?thesis
    by (auto simp: roundHalfEven_def Let_def)
qed

lemma roundHalfEven_tie: "m - of_int \<lfloor>m\<rfloor> = 1 / 2 \<Longrightarrow> even (roundHalfEven m)"
  by (simp add: roundHalfEven_def Let_def)

lemma pow2_pos: "0 < pow2 e"
  by (simp add: pow2_def)

lemma pow2_Suc: "pow2 (e + 1) = 2 * pow2 e"
proof (cases "0 \<le> e")
  case True
  then show ?thesis by (simp add: pow2_def nat_add_distrib)
next
  case False
  then have "nat (- e) = Suc (nat (- (e + 1)))" by simp
  then show ?thesis using False by (auto simp: pow2_def)
qed

lemma ilog2_bounds:
  assumes "0 < x"
  shows "pow2 (ilog2 x) \<le> x \<and> x < pow2 (ilog2 x + 1)"
proof (cases "1 \<le> x")
  case True
  define f where "f = nat \<lfloor>x\<rfloor>"
  have f1: "0 < f" using True by (simp add: f_def)
  have fx: "of_nat f \<le> x" "x < of_nat f + 1"
    using True unfolding f_def by (simp_all add: of_nat_nat) linarith
  have e: "ilog2 x = int (bitLength f - 1)"
    using True bitLength_pos [OF f1] by (simp add: ilog2_def f_def of_nat_diff)
  have "(2::nat) ^ (bitLength f - 1) \<le> f" by (rule bitLength_lower [OF f1])
  then have "(of_nat (2 ^ (bitLength f - 1)) :: rat) \<le> of_nat f" by (simp only: of_nat_le_iff)
  also have "\<dots> \<le> x" by (rule fx(1))
  finally have lo: "(2::rat) ^ (bitLength f - 1) \<le> x" by simp
  have "f + 1 \<le> 2 ^ bitLength f" using bitLength_upper [of f] by simp
  then have "(of_nat (f + 1) :: rat) \<le> of_nat (2 ^ bitLength f)" by (simp only: of_nat_le_iff)
  moreover have "x < of_nat (f + 1)" using fx(2) by simp
  ultimately have "x < of_nat (2 ^ bitLength f)" by (rule less_le_trans [rotated])
  then have "x < (2::rat) ^ bitLength f" by simp
  moreover have "bitLength f = Suc (bitLength f - 1)" using bitLength_pos [OF f1] by simp
  ultimately have hi: "x < 2 * (2::rat) ^ (bitLength f - 1)" by (metis power_Suc)
  show ?thesis
    unfolding pow2_Suc e using lo hi by (simp add: pow2_def)
next
  case False
  define m where "m = nat (\<lceil>1 / x\<rceil> - 1)"
  define k where "k = bitLength m"
  have y: "1 < 1 / x" using False assms by simp
  then have c2: "2 \<le> \<lceil>1 / x\<rceil>" by linarith
  have m1: "0 < m" using c2 by (simp add: m_def)
  have nn: "0 \<le> \<lceil>1 / x\<rceil> - 1" using c2 by linarith
  have mc: "of_nat m = (of_int \<lceil>1 / x\<rceil> :: rat) - 1"
    unfolding m_def of_nat_nat [OF nn] by simp
  have k1: "0 < k" unfolding k_def by (rule bitLength_pos [OF m1])
  have e: "ilog2 x = - int k"
    using False by (simp add: ilog2_def m_def k_def)
  have "(of_nat (2 ^ (k - 1)) :: rat) \<le> of_nat m"
    unfolding k_def using bitLength_lower [OF m1] by (simp only: of_nat_le_iff)
  also have "\<dots> = of_int \<lceil>1 / x\<rceil> - 1" by (rule mc)
  also have "\<dots> < 1 / x" by linarith
  finally have lo: "(2::rat) ^ (k - 1) < 1 / x" by simp
  have "m + 1 \<le> 2 ^ k" unfolding k_def using bitLength_upper [of m] by simp
  then have "(of_nat (m + 1) :: rat) \<le> of_nat (2 ^ k)" by (simp only: of_nat_le_iff)
  moreover have "(of_nat (m + 1) :: rat) = of_int \<lceil>1 / x\<rceil>" using mc by simp
  ultimately have "(of_int \<lceil>1 / x\<rceil> :: rat) \<le> of_nat (2 ^ k)" by simp
  then have "(of_int \<lceil>1 / x\<rceil> :: rat) \<le> 2 ^ k" by simp
  moreover have "1 / x \<le> of_int \<lceil>1 / x\<rceil>" by linarith
  ultimately have hi: "1 / x \<le> (2::rat) ^ k" by linarith
  have a: "1 / (2::rat) ^ k \<le> x"
    using hi assms by (simp add: field_simps)
  have b: "x < 1 / (2::rat) ^ (k - 1)"
    using lo assms by (simp add: field_simps)
  have p1: "pow2 (- int k) = 1 / 2 ^ k" using k1 by (simp add: pow2_def)
  have "pow2 (- int k + 1) = 2 * pow2 (- int k)" by (rule pow2_Suc)
  also have "\<dots> = 2 * (1 / 2 ^ k)" by (simp only: p1)
  also have "\<dots> = 1 / (2::rat) ^ (k - 1)"
    using k1 by (cases k) simp_all
  finally have p2: "pow2 (- int k + 1) = 1 / 2 ^ (k - 1)" .
  show ?thesis unfolding e p1 p2 using a b by simp
qed


lemma pow2_power_int: "pow2 e = power_int 2 e"
  by (simp add: pow2_def power_int_def inverse_eq_divide power_one_over)

lemma pow2_add: "pow2 (a + b) = pow2 a * pow2 b"
  by (simp add: pow2_power_int power_int_add)

lemma pow2_mono: "a \<le> b \<Longrightarrow> pow2 a \<le> pow2 b"
  by (simp add: pow2_power_int power_int_increasing)

lemma pow2_nat: "pow2 (int k) = 2 ^ k"
  by (simp add: pow2_def)

lemma fl_grid:
  assumes "fl x = Finite r"
  shows "\<exists>n. r = of_int n * pow2 (max (ilog2 \<bar>x\<bar> - 52) (- 1074)) \<and>
             \<bar>r - x\<bar> \<le> pow2 (max (ilog2 \<bar>x\<bar> - 52) (- 1074)) / 2"
proof (cases "x = 0")
  case True
  then have "r = 0" using assms by (simp add: fl_def)
  then show ?thesis using True pow2_pos [of "max (ilog2 0 - 52) (- 1074)"]
    by (intro exI [of _ 0]) (simp add: less_imp_le)
next
  case False
  define q where "q = max (ilog2 \<bar>x\<bar> - 52) (- 1074)"
  define n where "n = roundHalfEven (\<bar>x\<bar> / pow2 q)"
  have p: "0 < pow2 q" by (rule pow2_pos)
  have r: "r = (if 0 < x then of_int n * pow2 q else - (of_int n * pow2 q))"
    using assms False unfolding fl_def Let_def q_def [symmetric] n_def [symmetric]
    by (simp split: if_splits)
  have "\<bar>of_int n - \<bar>x\<bar> / pow2 q\<bar> \<le> 1 / 2"
    unfolding n_def by (rule roundHalfEven_nearest)
  then have "\<bar>of_int n - \<bar>x\<bar> / pow2 q\<bar> * pow2 q \<le> 1 / 2 * pow2 q"
    using p by (simp only: mult_le_cancel_right_pos)
  moreover have "\<bar>of_int n - \<bar>x\<bar> / pow2 q\<bar> * pow2 q = \<bar>of_int n * pow2 q - \<bar>x\<bar>\<bar>"
  proof -
    have "(of_int n - \<bar>x\<bar> / pow2 q) * pow2 q = of_int n * pow2 q - \<bar>x\<bar>"
      using p by (simp add: left_diff_distrib)
    then have "\<bar>of_int n * pow2 q - \<bar>x\<bar>\<bar> = \<bar>of_int n - \<bar>x\<bar> / pow2 q\<bar> * \<bar>pow2 q\<bar>"
      by (metis abs_mult)
    then show ?thesis using p by simp
  qed
  ultimately have near: "\<bar>of_int n * pow2 q - \<bar>x\<bar>\<bar> \<le> pow2 q / 2"
    by simp
  show ?thesis
  proof (cases "0 < x")
    case True
    then show ?thesis
      using near r unfolding q_def [symmetric] by (intro exI [of _ n]) simp
  next
    case neg: False
    then have "\<bar>- (of_int n * pow2 q) - x\<bar> = \<bar>of_int n * pow2 q - \<bar>x\<bar>\<bar>"
      using \<open>x \<noteq> 0\<close> by simp
    then show ?thesis
      using near r neg unfolding q_def [symmetric] by (intro exI [of _ "- n"]) simp
  qed
qed

lemma overflow_test:
  assumes "0 < n"
  shows "1024 < q + int (bitLength (nat n)) \<longleftrightarrow> pow2 1024 \<le> of_int n * pow2 q"
proof -
  define b where "b = bitLength (nat n)"
  have m: "0 < nat n" using assms by simp
  have b1: "0 < b" unfolding b_def by (rule bitLength_pos [OF m])
  have "(of_nat (2 ^ (b - 1)) :: rat) \<le> of_nat (nat n)"
    unfolding b_def using bitLength_lower [OF m] by (simp only: of_nat_le_iff)
  then have lo: "pow2 (int b - 1) \<le> of_int n"
    using assms b1 pow2_nat [of "b - 1"] by (simp add: of_nat_diff)
  have "(of_nat (nat n) :: rat) < of_nat (2 ^ b)"
    unfolding b_def using bitLength_upper [of "nat n"] by (simp only: of_nat_less_iff)
  then have hi: "of_int n < pow2 (int b)"
    using assms pow2_nat [of b] by simp
  show ?thesis
  proof
    assume "1024 < q + int (bitLength (nat n))"
    then have "1024 \<le> (int b - 1) + q" by (simp add: b_def)
    then have "pow2 1024 \<le> pow2 ((int b - 1) + q)" by (rule pow2_mono)
    also have "\<dots> = pow2 (int b - 1) * pow2 q" by (rule pow2_add)
    also have "\<dots> \<le> of_int n * pow2 q"
      using lo pow2_pos [of q] by (simp only: mult_le_cancel_right_pos)
    finally show "pow2 1024 \<le> of_int n * pow2 q" .
  next
    assume big: "pow2 1024 \<le> of_int n * pow2 q"
    show "1024 < q + int (bitLength (nat n))"
    proof (rule ccontr)
      assume "\<not> 1024 < q + int (bitLength (nat n))"
      then have "int b + q \<le> 1024" by (simp add: b_def)
      then have "pow2 (int b + q) \<le> pow2 1024" by (rule pow2_mono)
      moreover have "of_int n * pow2 q < pow2 (int b) * pow2 q"
        using hi pow2_pos [of q] by (simp only: mult_less_cancel_right_pos)
      ultimately show False using big by (simp add: pow2_add)
    qed
  qed
qed

section \<open>Evaluating double arithmetic\<close>

text \<open>
  Rounding is evaluated on numerals step by step: the binary exponent, the rounded
  significand and the overflow test are each computed by rewriting, and \<open>fl_positive\<close>
  puts them together. The facts below are the operations the worked examples perform.
\<close>

lemma floor_numeral_div: "\<lfloor>(numeral a :: rat) / numeral b\<rfloor> = numeral a div numeral b"
  using floor_divide_of_int_eq [of "numeral a" "numeral b", where ?'a = rat] by simp
lemma ceiling_numeral_div: "\<lceil>(numeral a :: rat) / numeral b\<rceil> = - ((- numeral a) div numeral b)"
  using floor_divide_of_int_eq [of "- numeral a" "numeral b", where ?'a = rat]
  by (simp add: ceiling_def)
lemma bitLength_0: "bitLength 0 = 0" by (simp add: bitLength.simps)
lemma bitLength_1: "bitLength (Suc 0) = Suc 0" "bitLength 1 = Suc 0" by (simp_all add: bitLength.simps)
lemma bitLength_Bit0: "bitLength (numeral (Num.Bit0 n)) = Suc (bitLength (numeral n))"
  by (subst bitLength.simps) simp
lemma bitLength_Bit1: "bitLength (numeral (Num.Bit1 n)) = Suc (bitLength (numeral n))"
  by (subst bitLength.simps) simp
lemmas bitLength_numeral = bitLength_0 bitLength_1 bitLength_Bit0 bitLength_Bit1
lemmas ilog2_eval = ilog2_def floor_numeral_div ceiling_numeral_div bitLength_numeral
lemmas round_eval = roundHalfEven_def pow2_def Let_def floor_numeral_div

lemma fl_positive:
  assumes "0 < x" and "ilog2 x = e" and "max (e - 52) (- 1074) = q"
      and "roundHalfEven (x / pow2 q) = n" and "int (bitLength (nat n)) + q \<le> 1024"
    shows "fl x = Finite (of_int n * pow2 q)"
  using assms by (simp add: fl_def Let_def)

lemma div_10_100: "js_div (Finite 10) (Finite 100) = Finite (3602879701896397 / 36028797018963968)"
proof -
  have "fl (10 / 100) = Finite (of_int 7205759403792794 * pow2 (- 56))"
    by (rule fl_positive [where e = "- 4"]) (simp_all add: ilog2_eval round_eval)
  then show ?thesis by (simp add: pow2_def)
qed

lemma add_1_tenth:
  "js_add (Finite 1) (Finite (3602879701896397 / 36028797018963968)) =
   Finite (2476979795053773 / 2251799813685248)"
proof -
  have "fl (1 + 3602879701896397 / 36028797018963968) =
        Finite (of_int 4953959590107546 * pow2 (- 52))"
    by (rule fl_positive [where e = 0]) (simp_all add: ilog2_eval round_eval)
  then show ?thesis by (simp add: pow2_def)
qed

lemma mul_100_1_1:
  "js_mul (Finite 100) (Finite (2476979795053773 / 2251799813685248)) =
   Finite (7740561859543041 / 70368744177664)"
proof -
  have "fl (100 * (2476979795053773 / 2251799813685248)) =
        Finite (of_int 7740561859543041 * pow2 (- 46))"
    by (rule fl_positive [where e = 6]) (simp_all add: ilog2_eval round_eval)
  then show ?thesis by (simp add: pow2_def)
qed

lemma div_25_100: "js_div (Finite 25) (Finite 100) = Finite (1 / 4)"
proof -
  have "fl (25 / 100) = Finite (of_int 4503599627370496 * pow2 (- 54))"
    by (rule fl_positive [where e = "- 2"]) (simp_all add: ilog2_eval round_eval)
  then show ?thesis by (simp add: pow2_def)
qed

lemma add_1_quarter: "js_add (Finite 1) (Finite (1 / 4)) = Finite (5 / 4)"
proof -
  have "fl (1 + 1 / 4) = Finite (of_int 5629499534213120 * pow2 (- 52))"
    by (rule fl_positive [where e = 0]) (simp_all add: ilog2_eval round_eval)
  then show ?thesis by (simp add: pow2_def)
qed

lemma mul_100_1_25: "js_mul (Finite 100) (Finite (5 / 4)) = Finite 125"
proof -
  have "fl (100 * (5 / 4)) = Finite (of_int 8796093022208000 * pow2 (- 46))"
    by (rule fl_positive [where e = 6]) (simp_all add: ilog2_eval round_eval)
  then show ?thesis by (simp add: pow2_def)
qed

lemma div_50_100: "js_div (Finite 50) (Finite 100) = Finite (1 / 2)"
proof -
  have "fl (50 / 100) = Finite (of_int 4503599627370496 * pow2 (- 53))"
    by (rule fl_positive [where e = "- 1"]) (simp_all add: ilog2_eval round_eval)
  then show ?thesis by (simp add: pow2_def)
qed

lemma mul_1_half: "js_mul (Finite 1) (Finite (1 / 2)) = Finite (1 / 2)"
proof -
  have "fl (1 * (1 / 2)) = Finite (of_int 4503599627370496 * pow2 (- 53))"
    by (rule fl_positive [where e = "- 1"]) (simp_all add: ilog2_eval round_eval)
  then show ?thesis by (simp add: pow2_def)
qed

lemma add_0_50: "js_add (Finite 0) (Finite 50) = Finite 50"
proof -
  have "fl (0 + 50) = Finite (of_int 7036874417766400 * pow2 (- 47))"
    by (rule fl_positive [where e = 5]) (simp_all add: ilog2_eval round_eval)
  then show ?thesis by (simp add: pow2_def)
qed

lemma add_50_50: "js_add (Finite 50) (Finite 50) = Finite 100"
proof -
  have "fl (50 + 50) = Finite (of_int 7036874417766400 * pow2 (- 46))"
    by (rule fl_positive [where e = 6]) (simp_all add: ilog2_eval round_eval)
  then show ?thesis by (simp add: pow2_def)
qed

lemmas double_facts = div_10_100 add_1_tenth mul_100_1_1 div_25_100 add_1_quarter mul_100_1_25
  div_50_100 mul_1_half add_0_50 add_50_50

subsection \<open>The stage loop\<close>

lemma stageStep_profitPercents:
  "stageStep autoSell userSecret currentPrice i token w = (token', w') \<Longrightarrow>
   profitPercents token' = profitPercents token"
  by (auto simp: stageStep_def Let_def split: prod.splits option.splits if_splits)

lemma profitStages_foldl:
  "profitStages autoSell userSecret currentPrice i token w =
   foldl (\<lambda>s j. stageStep autoSell userSecret currentPrice j (fst s) (snd s)) (token, w)
     [i ..< length (profitPercents token)]"
proof (induction autoSell userSecret currentPrice i token w rule: profitStages.induct)
  case (1 autoSell userSecret currentPrice i token w)
  show ?case
  proof (cases "i < length (profitPercents token)")
    case False
    then show ?thesis by (simp add: profitStages.simps)
  next
    case True
    obtain token' w' where step: "stageStep autoSell userSecret currentPrice i token w = (token', w')"
      by (cases "stageStep autoSell userSecret currentPrice i token w")
    have len: "profitPercents token' = profitPercents token"
      using step by (rule stageStep_profitPercents)
    have "profitStages autoSell userSecret currentPrice i token w =
          profitStages autoSell userSecret currentPrice (i + 1) token' w'"
      using True step by (simp add: profitStages.simps)
    also have "\<dots> = foldl (\<lambda>s j. stageStep autoSell userSecret currentPrice j (fst s) (snd s))
                       (token', w') [i + 1 ..< length (profitPercents token')]"
      using "1.IH" [OF True step [symmetric]] .
    also have "\<dots> = foldl (\<lambda>s j. stageStep autoSell userSecret currentPrice j (fst s) (snd s))
                       (token, w) [i ..< length (profitPercents token)]"
      using True step by (simp add: len upt_conv_Cons)
    finally show ?thesis .
  qed
qed

lemma stageStep_idle:
  "\<not> stageCondition currentPrice token i \<Longrightarrow>
   stageStep autoSell userSecret currentPrice i token w = (token, w)"
  by (simp add: stageStep_def)

lemma stageStep_failed:
  assumes "stageCondition currentPrice token i"
      and "autoSell (address token)
             (js_mul (buyAmount token) (js_div (numAt (soldPercents token) i) (Finite 100)))
             userSecret w = (None, w')"
    shows "stageStep autoSell userSecret currentPrice i token w = (token\<lparr>status := Some Error\<rparr>, w')"
  using assms by (simp add: stageStep_def)

lemma stageStep_sold:
  assumes "stageCondition currentPrice token i"
      and "autoSell (address token)
             (js_mul (buyAmount token) (js_div (numAt (soldPercents token) i) (Finite 100)))
             userSecret w = (Some txId, w')"
    shows "stageStep autoSell userSecret currentPrice i token w =
           (if i + 1 \<ge> length (profitPercents token)
            then token\<lparr>lastSellPrice := Some currentPrice, currentStage := Some (i + 1),
                       lastTxId := Some txId, finished := Some True, status := Some Sold\<rparr>
            else token\<lparr>lastSellPrice := Some currentPrice, currentStage := Some (i + 1),
                       lastTxId := Some txId\<rparr>, w')"
  using assms by (simp add: stageStep_def)

subsection \<open>Runs of the example token on the scripted market\<close>

lemmas condition_eval = stageCondition_def numAt_def numOrNaN_def js_ge_def js_gt_def truthyOpt_def
  double_facts

lemmas engine_eval = evaluateAt_def executeHoneyStrategy_def getHoneySettings_def
  setHoneySettings_def usersWith_def evalToken_def profitStages.simps stageStep_def
  currentStageOr0_def marketGetPrice_def marketTrade_def quiet_def Let_def

lemmas token_defs = newToken_def enteredToken_def stage1Token_def soldToken_def

lemma run_entry:
  "evaluateAt (Finite 100) (usersWith newToken True) quiet =
   (None, \<lparr>tokens = [enteredToken], repeatOnEntry = True\<rparr>,
    \<lparr>price = Some (Finite 100), tradeOutcomes = [],
     tradeLog = [(''buy'', ''TKN'', Finite 1, True)]\<rparr>)"
  by (simp add: engine_eval condition_eval token_defs
           del: js_div.simps(1) js_add.simps(1) js_mul.simps(1))

lemma run_109:
  "evaluateAt (Finite 109) (usersWith enteredToken True) quiet =
   (None, \<lparr>tokens = [enteredToken], repeatOnEntry = True\<rparr>,
    \<lparr>price = Some (Finite 109), tradeOutcomes = [], tradeLog = []\<rparr>)"
  by (simp add: engine_eval condition_eval token_defs
           del: js_div.simps(1) js_add.simps(1) js_mul.simps(1))

lemma run_110:
  "evaluateAt (Finite 110) (usersWith enteredToken True) quiet =
   (None, \<lparr>tokens = [enteredToken], repeatOnEntry = True\<rparr>,
    \<lparr>price = Some (Finite 110), tradeOutcomes = [], tradeLog = []\<rparr>)"
  by (simp add: engine_eval condition_eval token_defs
           del: js_div.simps(1) js_add.simps(1) js_mul.simps(1))

lemma run_111:
  "evaluateAt (Finite 111) (usersWith enteredToken True) quiet =
   (None, \<lparr>tokens = [stage1Token], repeatOnEntry = True\<rparr>,
    \<lparr>price = Some (Finite 111), tradeOutcomes = [],
     tradeLog = [(''sell'', ''TKN'', Finite (1 / 2), True)]\<rparr>)"
  by (simp add: engine_eval condition_eval token_defs
           del: js_div.simps(1) js_add.simps(1) js_mul.simps(1))

lemma run_111_again:
  "evaluateAt (Finite 111) (usersWith stage1Token True) quiet =
   (None, \<lparr>tokens = [stage1Token], repeatOnEntry = True\<rparr>,
    \<lparr>price = Some (Finite 111), tradeOutcomes = [], tradeLog = []\<rparr>)"
  by (simp add: engine_eval condition_eval token_defs
           del: js_div.simps(1) js_add.simps(1) js_mul.simps(1))

lemma run_126:
  "evaluateAt (Finite 126) (usersWith stage1Token True) quiet =
   (None, \<lparr>tokens = [soldToken], repeatOnEntry = True\<rparr>,
    \<lparr>price = Some (Finite 126), tradeOutcomes = [],
     tradeLog = [(''sell'', ''TKN'', Finite (1 / 2), True)]\<rparr>)"
  by (simp add: engine_eval condition_eval token_defs
           del: js_div.simps(1) js_add.simps(1) js_mul.simps(1))

lemma run_sold_90:
  "evaluateAt (Finite 90) (usersWith soldToken True) quiet =
   (None, \<lparr>tokens = [soldToken], repeatOnEntry = True\<rparr>,
    \<lparr>price = Some (Finite 90), tradeOutcomes = [], tradeLog = []\<rparr>)"
  by (simp add: engine_eval condition_eval token_defs
           del: js_div.simps(1) js_add.simps(1) js_mul.simps(1))

lemma run_126_first_sell_fails:
  "evaluateAt (Finite 126) (usersWith enteredToken True) (quiet\<lparr>tradeOutcomes := [False]\<rparr>) =
   (None,
    \<lparr>tokens = [enteredToken\<lparr>lastSellPrice := Some (Finite 126), currentStage := Some 2,
                              lastTxId := Some ''sell-tx'', finished := Some True,
                              status := Some Sold\<rparr>],
     repeatOnEntry = True\<rparr>,
    \<lparr>price = Some (Finite 126), tradeOutcomes = [],
     tradeLog = [(''sell'', ''TKN'', Finite (1 / 2), False),
                 (''sell'', ''TKN'', Finite (1 / 2), True)]\<rparr>)"
  by (simp add: engine_eval condition_eval token_defs
           del: js_div.simps(1) js_add.simps(1) js_mul.simps(1))

section \<open>Properties of the strategy store and the trading engine\<close>

text \<open>
  Claim C1, amended. For a token with an entry price, stage \<open>i\<close> fires exactly when
  \<open>currentPrice \<ge> entryPrice * (1 + profitPercents[i] / 100)\<close>, computed in double
  precision, and \<open>lastSellPrice\<close> is unset (or falsy, that is \<open>0\<close> or \<open>NaN\<close>) or
  \<open>currentPrice > lastSellPrice\<close>. A stage that does not fire changes nothing and calls
  no collaborator; a successful sell sets \<open>lastSellPrice\<close> to the current price,
  \<open>currentStage\<close> to \<open>i + 1\<close> and \<open>lastTxId\<close>, and marks the token finished and sold when
  \<open>i + 1\<close> reaches the number of stages; a failed sell sets the status to error. The
  stages are tried in order from \<open>currentStage\<close> to the last one, and a token with a
  truthy entry price goes through this loop during the pass. For the example token
  (stages at 10 and 25 percent, half sold at each, bought for 1 at price 100): no stage
  fires at 109 nor at 110, because the double-precision target \<open>100 * (1 + 10 / 100)\<close>
  is \<open>110 + 2\<^sup>-\<^sup>4\<^sup>6\<close>; stage 0 fires at 111 and sells 0.5; stage 1 does not fire at 111
  again; stage 1 fires at 126, sells 0.5 and finishes the token.
\<close>

theorem profit_stage_rule:
  fixes autoSell :: "'w tradeAction"
  assumes entry: "lastEntryPrice token = Some entry"
      and stage: "i < length (profitPercents token)"
  shows
    "(stageCondition currentPrice token i \<longleftrightarrow>
        js_ge currentPrice
          (js_mul entry (js_add (Finite 1) (js_div (profitPercents token ! i) (Finite 100)))) \<and>
        (\<not> truthyOpt (lastSellPrice token) \<or>
         (\<exists>l. lastSellPrice token = Some l \<and> js_gt currentPrice l))) \<and>
     (\<not> stageCondition currentPrice token i \<longrightarrow>
        stageStep autoSell userSecret currentPrice i token w = (token, w)) \<and>
     (\<forall>txId w'.
        stageCondition currentPrice token i \<and>
        autoSell (address token)
          (js_mul (buyAmount token) (js_div (numAt (soldPercents token) i) (Finite 100)))
          userSecret w = (Some txId, w') \<longrightarrow>
        stageStep autoSell userSecret currentPrice i token w =
          (if i + 1 \<ge> length (profitPercents token)
           then token\<lparr>lastSellPrice := Some currentPrice, currentStage := Some (i + 1),
                      lastTxId := Some txId, finished := Some True, status := Some Sold\<rparr>
           else token\<lparr>lastSellPrice := Some currentPrice, currentStage := Some (i + 1),
                      lastTxId := Some txId\<rparr>, w')) \<and>
     (\<forall>w'.
        stageCondition currentPrice token i \<and>
        autoSell (address token)
          (js_mul (buyAmount token) (js_div (numAt (soldPercents token) i) (Finite 100)))
          userSecret w = (None, w') \<longrightarrow>
        stageStep autoSell userSecret currentPrice i token w =
          (token\<lparr>status := Some Error\<rparr>, w')) \<and>
     profitStages autoSell userSecret currentPrice i token w =
       foldl (\<lambda>s j. stageStep autoSell userSecret currentPrice j (fst s) (snd s)) (token, w)
         [i ..< length (profitPercents token)] \<and>
     (address token \<noteq> [] \<and> truthy (buyAmount token) \<and> soldPercents token \<noteq> [] \<and>
      finished token \<noteq> Some True \<and> truthy entry \<and>
      getPrice (address token) w0 = (Some currentPrice, w) \<longrightarrow>
        evalToken userSecret repeat getPrice autoBuy autoSell token w0 =
          (case profitStages autoSell userSecret currentPrice (currentStageOr0 token) token w of
             (token1, w2) \<Rightarrow>
               if js_ge (foldl js_add (Finite 0) (soldPercents token1)) (Finite 100) \<and> repeat \<and>
                  js_le currentPrice
                    (case lastEntryPrice token1 of None \<Rightarrow> Finite 0 | Some e \<Rightarrow> e)
               then (token1\<lparr>finished := Some False, lastEntryPrice := None,
                            lastSellPrice := None, status := Some Pending,
                            currentStage := Some 0, lastTxId := None\<rparr>, w2)
               else (token1, w2))) \<and>
     evaluateAt (Finite 100) (usersWith newToken True) quiet =
       (None, \<lparr>tokens = [enteredToken], repeatOnEntry = True\<rparr>,
        \<lparr>price = Some (Finite 100), tradeOutcomes = [],
         tradeLog = [(''buy'', ''TKN'', Finite 1, True)]\<rparr>) \<and>
     evaluateAt (Finite 109) (usersWith enteredToken True) quiet =
       (None, \<lparr>tokens = [enteredToken], repeatOnEntry = True\<rparr>,
        \<lparr>price = Some (Finite 109), tradeOutcomes = [], tradeLog = []\<rparr>) \<and>
     evaluateAt (Finite 110) (usersWith enteredToken True) quiet =
       (None, \<lparr>tokens = [enteredToken], repeatOnEntry = True\<rparr>,
        \<lparr>price = Some (Finite 110), tradeOutcomes = [], tradeLog = []\<rparr>) \<and>
     evaluateAt (Finite 111) (usersWith enteredToken True) quiet =
       (None, \<lparr>tokens = [stage1Token], repeatOnEntry = True\<rparr>,
        \<lparr>price = Some (Finite 111), tradeOutcomes = [],
         tradeLog = [(''sell'', ''TKN'', Finite (1 / 2), True)]\<rparr>) \<and>
     evaluateAt (Finite 111) (usersWith stage1Token True) quiet =
       (None, \<lparr>tokens = [stage1Token], repeatOnEntry = True\<rparr>,
        \<lparr>price = Some (Finite 111), tradeOutcomes = [], tradeLog = []\<rparr>) \<and>
     evaluateAt (Finite 126) (usersWith stage1Token True) quiet =
       (None, \<lparr>tokens = [soldToken], repeatOnEntry = True\<rparr>,
        \<lparr>price = Some (Finite 126), tradeOutcomes = [],
         tradeLog = [(''sell'', ''TKN'', Finite (1 / 2), True)]\<rparr>)"
proof -
  have cond: "stageCondition currentPrice token i \<longleftrightarrow>
        js_ge currentPrice
          (js_mul entry (js_add (Finite 1) (js_div (profitPercents token ! i) (Finite 100)))) \<and>
        (\<not> truthyOpt (lastSellPrice token) \<or>
         (\<exists>l. lastSellPrice token = Some l \<and> js_gt currentPrice l))"
    using entry stage
    by (cases "lastSellPrice token")
       (simp_all add: stageCondition_def numOrNaN_def numAt_def truthyOpt_def)
  have through: "address token \<noteq> [] \<and> truthy (buyAmount token) \<and> soldPercents token \<noteq> [] \<and>
      finished token \<noteq> Some True \<and> truthy entry \<and>
      getPrice (address token) w0 = (Some currentPrice, w) \<longrightarrow>
        evalToken userSecret repeat getPrice autoBuy autoSell token w0 =
          (case profitStages autoSell userSecret currentPrice (currentStageOr0 token) token w of
             (token1, w2) \<Rightarrow>
               if js_ge (foldl js_add (Finite 0) (soldPercents token1)) (Finite 100) \<and> repeat \<and>
                  js_le currentPrice
                    (case lastEntryPrice token1 of None \<Rightarrow> Finite 0 | Some e \<Rightarrow> e)
               then (token1\<lparr>finished := Some False, lastEntryPrice := None,
                            lastSellPrice := None, status := Some Pending,
                            currentStage := Some 0, lastTxId := None\<rparr>, w2)
               else (token1, w2))"
    using entry stage
    by (auto simp: evalToken_def truthyOpt_def Let_def split: prod.splits)
  have idle: "\<not> stageCondition currentPrice token i \<longrightarrow>
        stageStep autoSell userSecret currentPrice i token w = (token, w)"
    by (simp add: stageStep_idle)
  have sold: "\<forall>txId w'.
        stageCondition currentPrice token i \<and>
        autoSell (address token)
          (js_mul (buyAmount token) (js_div (numAt (soldPercents token) i) (Finite 100)))
          userSecret w = (Some txId, w') \<longrightarrow>
        stageStep autoSell userSecret currentPrice i token w =
          (if i + 1 \<ge> length (profitPercents token)
           then token\<lparr>lastSellPrice := Some currentPrice, currentStage := Some (i + 1),
                      lastTxId := Some txId, finished := Some True, status := Some Sold\<rparr>
           else token\<lparr>lastSellPrice := Some currentPrice, currentStage := Some (i + 1),
                      lastTxId := Some txId\<rparr>, w')"
    using stageStep_sold [of currentPrice token i autoSell userSecret w] by blast
  have failed: "\<forall>w'.
        stageCondition currentPrice token i \<and>
        autoSell (address token)
          (js_mul (buyAmount token) (js_div (numAt (soldPercents token) i) (Finite 100)))
          userSecret w = (None, w') \<longrightarrow>
        stageStep autoSell userSecret currentPrice i token w =
          (token\<lparr>status := Some Error\<rparr>, w')"
    using stageStep_failed [of currentPrice token i autoSell userSecret w] by blast
  show ?thesis
    by (intro conjI cond idle sold failed profitStages_foldl through
          run_entry run_109 run_110 run_111 run_111_again run_126)
qed

theorem profit_stage_rule_witness:
  "lastEntryPrice enteredToken = Some (Finite 100) \<and>
   0 < length (profitPercents enteredToken) \<and>
   js_ge (Finite 111)
     (js_mul (Finite 100)
        (js_add (Finite 1) (js_div (profitPercents enteredToken ! 0) (Finite 100)))) \<and>
   \<not> truthyOpt (lastSellPrice enteredToken) \<and>
   stageCondition (Finite 111) enteredToken 0 \<and>
   marketTrade ''sell'' (address enteredToken)
     (js_mul (buyAmount enteredToken)
        (js_div (numAt (soldPercents enteredToken) 0) (Finite 100)))
     ''key'' (quiet\<lparr>price := Some (Finite 111)\<rparr>) =
     (Some ''sell-tx'',
      \<lparr>price = Some (Finite 111), tradeOutcomes = [],
       tradeLog = [(''sell'', ''TKN'', Finite (1 / 2), True)]\<rparr>) \<and>
   stageStep (marketTrade ''sell'') ''key'' (Finite 111) 0 enteredToken
     (quiet\<lparr>price := Some (Finite 111)\<rparr>) =
     (stage1Token,
      \<lparr>price = Some (Finite 111), tradeOutcomes = [],
       tradeLog = [(''sell'', ''TKN'', Finite (1 / 2), True)]\<rparr>)"
proof -
  have entry: "lastEntryPrice enteredToken = Some (Finite 100)"
    by (simp add: token_defs)
  have stage: "0 < length (profitPercents enteredToken)"
    by (simp add: token_defs)
  have target: "js_ge (Finite 111)
     (js_mul (Finite 100)
        (js_add (Finite 1) (js_div (profitPercents enteredToken ! 0) (Finite 100))))"
    by (simp add: token_defs js_ge_def double_facts
             del: js_div.simps(1) js_add.simps(1) js_mul.simps(1))
  have unset: "\<not> truthyOpt (lastSellPrice enteredToken)"
    by (simp add: token_defs truthyOpt_def)
  have sell: "marketTrade ''sell'' (address enteredToken)
     (js_mul (buyAmount enteredToken)
        (js_div (numAt (soldPercents enteredToken) 0) (Finite 100)))
     ''key'' (quiet\<lparr>price := Some (Finite 111)\<rparr>) =
     (Some ''sell-tx'',
      \<lparr>price = Some (Finite 111), tradeOutcomes = [],
       tradeLog = [(''sell'', ''TKN'', Finite (1 / 2), True)]\<rparr>)"
    by (simp add: token_defs marketTrade_def quiet_def numAt_def double_facts
             del: js_div.simps(1) js_add.simps(1) js_mul.simps(1))
  note rule = profit_stage_rule [OF entry stage, of "Finite 111" "marketTrade ''sell''" "''key''"
      "quiet\<lparr>price := Some (Finite 111)\<rparr>"]
  from rule target unset have fires: "stageCondition (Finite 111) enteredToken 0"
    by blast
  from rule fires sell
  have "stageStep (marketTrade ''sell'') ''key'' (Finite 111) 0 enteredToken
          (quiet\<lparr>price := Some (Finite 111)\<rparr>) =
        (if 0 + 1 \<ge> length (profitPercents enteredToken)
         then enteredToken\<lparr>lastSellPrice := Some (Finite 111), currentStage := Some (0 + 1),
                lastTxId := Some ''sell-tx'', finished := Some True, status := Some Sold\<rparr>
         else enteredToken\<lparr>lastSellPrice := Some (Finite 111), currentStage := Some (0 + 1),
                lastTxId := Some ''sell-tx''\<rparr>,
         \<lparr>price = Some (Finite 111), tradeOutcomes = [],
          tradeLog = [(''sell'', ''TKN'', Finite (1 / 2), True)]\<rparr>)"
    by blast
  then have step: "stageStep (marketTrade ''sell'') ''key'' (Finite 111) 0 enteredToken
     (quiet\<lparr>price := Some (Finite 111)\<rparr>) =
     (stage1Token,
      \<lparr>price = Some (Finite 111), tradeOutcomes = [],
       tradeLog = [(''sell'', ''TKN'', Finite (1 / 2), True)]\<rparr>)"
    by (simp add: token_defs)
  from entry stage target unset fires sell step show ?thesis
    by (intro conjI)
qed

text \<open>
  The example of claim C1 as the specification states it fails at price 110: the token
  entered at 100 has its first target at \<open>110 + 2\<^sup>-\<^sup>4\<^sup>6\<close>, the stage condition is false at
  110, and the pass at 110 sells nothing and leaves the token as it was.
\<close>

theorem stage_0_silent_at_110:
  "evaluateAt (Finite 100) (usersWith newToken True) quiet =
     (None, \<lparr>tokens = [enteredToken], repeatOnEntry = True\<rparr>,
      \<lparr>price = Some (Finite 100), tradeOutcomes = [],
       tradeLog = [(''buy'', ''TKN'', Finite 1, True)]\<rparr>) \<and>
   js_mul (Finite 100) (js_add (Finite 1) (js_div (Finite 10) (Finite 100))) =
     Finite (110 + 1 / 2 ^ 46) \<and>
   \<not> stageCondition (Finite 110) enteredToken 0 \<and>
   evaluateAt (Finite 110) (usersWith enteredToken True) quiet =
     (None, \<lparr>tokens = [enteredToken], repeatOnEntry = True\<rparr>,
      \<lparr>price = Some (Finite 110), tradeOutcomes = [], tradeLog = []\<rparr>)"
proof -
  have "js_mul (Finite 100) (js_add (Finite 1) (js_div (Finite 10) (Finite 100))) =
          Finite (110 + 1 / 2 ^ 46)"
    by (simp add: double_facts del: js_div.simps(1) js_add.simps(1) js_mul.simps(1))
  moreover have "\<not> stageCondition (Finite 110) enteredToken 0"
    by (simp add: condition_eval token_defs
             del: js_div.simps(1) js_add.simps(1) js_mul.simps(1))
  ultimately show ?thesis
    using run_entry run_110 by (intro conjI)
qed

text \<open>A finished token is only marked sold: the pass does nothing else with it.\<close>

lemma finished_token_skipped:
  assumes "address token \<noteq> []" "truthy (buyAmount token)"
      and "profitPercents token \<noteq> []" "soldPercents token \<noteq> []"
      and "finished token = Some True"
  shows "evalToken userSecret repeat getPrice autoBuy autoSell token w =
         (token\<lparr>status := Some Sold\<rparr>, w)"
  using assms by (simp add: evalToken_def)

text \<open>
  Claim C2 fails on the code. The token of the example, fully sold (both stages, the
  sold percentages summing to 100), under \<open>repeatOnEntry\<close>, at price 90, below its entry
  price 100: the pass stops at the \<open>finished\<close> check, before the price is fetched, and
  the token is not reset. The same holds of every valid token that is finished
  (\<open>finished_token_skipped\<close>): the reset at the end of the loop body is out of its reach.
\<close>

theorem sold_token_not_rearmed:
  "evaluateAt (Finite 126) (usersWith stage1Token True) quiet =
     (None, \<lparr>tokens = [soldToken], repeatOnEntry = True\<rparr>,
      \<lparr>price = Some (Finite 126), tradeOutcomes = [],
       tradeLog = [(''sell'', ''TKN'', Finite (1 / 2), True)]\<rparr>) \<and>
   finished soldToken = Some True \<and>
   lastEntryPrice soldToken = Some (Finite 100) \<and>
   js_ge (foldl js_add (Finite 0) (soldPercents soldToken)) (Finite 100) \<and>
   js_le (Finite 90) (Finite 100) \<and>
   evaluateAt (Finite 90) (usersWith soldToken True) quiet =
     (None, \<lparr>tokens = [soldToken], repeatOnEntry = True\<rparr>,
      \<lparr>price = Some (Finite 90), tradeOutcomes = [], tradeLog = []\<rparr>)"
proof -
  have "finished soldToken = Some True" "lastEntryPrice soldToken = Some (Finite 100)"
    by (simp_all add: token_defs)
  moreover have "js_ge (foldl js_add (Finite 0) (soldPercents soldToken)) (Finite 100)"
    by (simp add: token_defs js_ge_def double_facts
             del: js_div.simps(1) js_add.simps(1) js_mul.simps(1))
  moreover have "js_le (Finite 90) (Finite 100)"
    by simp
  ultimately show ?thesis
    using run_126 run_sold_90 by (intro conjI)
qed

text \<open>
  Claim C3. When stage \<open>i\<close> fires and its sell is rejected, the token's status becomes
  error and the loop goes on with stage \<open>i + 1\<close> in the same pass, through all the
  remaining stages in order.
\<close>

theorem failed_sell_continues:
  fixes autoSell :: "'w tradeAction"
  assumes "i < length (profitPercents token)"
      and "stageCondition currentPrice token i"
      and "autoSell (address token)
             (js_mul (buyAmount token) (js_div (numAt (soldPercents token) i) (Finite 100)))
             userSecret w = (None, w')"
  shows "profitStages autoSell userSecret currentPrice i token w =
           profitStages autoSell userSecret currentPrice (i + 1) (token\<lparr>status := Some Error\<rparr>) w' \<and>
         profitStages autoSell userSecret currentPrice (i + 1) (token\<lparr>status := Some Error\<rparr>) w' =
           foldl (\<lambda>s j. stageStep autoSell userSecret currentPrice j (fst s) (snd s))
             (token\<lparr>status := Some Error\<rparr>, w') [i + 1 ..< length (profitPercents token)]"
proof -
  have "profitStages autoSell userSecret currentPrice i token w =
        profitStages autoSell userSecret currentPrice (i + 1) (token\<lparr>status := Some Error\<rparr>) w'"
    using assms(1) stageStep_failed [where autoSell = autoSell, OF assms(2,3)]
    by (subst profitStages.simps) simp
  moreover have "profitStages autoSell userSecret currentPrice (i + 1) (token\<lparr>status := Some Error\<rparr>) w' =
           foldl (\<lambda>s j. stageStep autoSell userSecret currentPrice j (fst s) (snd s))
             (token\<lparr>status := Some Error\<rparr>, w') [i + 1 ..< length (profitPercents token)]"
    using profitStages_foldl [of autoSell userSecret currentPrice "i + 1" "token\<lparr>status := Some Error\<rparr>" w']
    by simp
  ultimately show ?thesis by (intro conjI)
qed

theorem failed_sell_continues_witness:
  "0 < length (profitPercents enteredToken) \<and>
   stageCondition (Finite 126) enteredToken 0 \<and>
   marketTrade ''sell'' (address enteredToken)
     (js_mul (buyAmount enteredToken)
        (js_div (numAt (soldPercents enteredToken) 0) (Finite 100)))
     ''key'' \<lparr>price = Some (Finite 126), tradeOutcomes = [False], tradeLog = []\<rparr> =
     (None, \<lparr>price = Some (Finite 126), tradeOutcomes = [],
             tradeLog = [(''sell'', ''TKN'', Finite (1 / 2), False)]\<rparr>) \<and>
   profitStages (marketTrade ''sell'') ''key'' (Finite 126) 0 enteredToken
     \<lparr>price = Some (Finite 126), tradeOutcomes = [False], tradeLog = []\<rparr> =
   profitStages (marketTrade ''sell'') ''key'' (Finite 126) (0 + 1)
     (enteredToken\<lparr>status := Some Error\<rparr>)
     \<lparr>price = Some (Finite 126), tradeOutcomes = [],
      tradeLog = [(''sell'', ''TKN'', Finite (1 / 2), False)]\<rparr> \<and>
   profitStages (marketTrade ''sell'') ''key'' (Finite 126) (0 + 1)
     (enteredToken\<lparr>status := Some Error\<rparr>)
     \<lparr>price = Some (Finite 126), tradeOutcomes = [],
      tradeLog = [(''sell'', ''TKN'', Finite (1 / 2), False)]\<rparr> =
   (enteredToken\<lparr>lastSellPrice := Some (Finite 126), currentStage := Some 2,
                  lastTxId := Some ''sell-tx'', finished := Some True, status := Some Sold\<rparr>,
    \<lparr>price = Some (Finite 126), tradeOutcomes = [],
     tradeLog = [(''sell'', ''TKN'', Finite (1 / 2), False),
                 (''sell'', ''TKN'', Finite (1 / 2), True)]\<rparr>)"
proof -
  have stage: "0 < length (profitPercents enteredToken)"
    by (simp add: token_defs)
  have fires: "stageCondition (Finite 126) enteredToken 0"
    by (simp add: condition_eval token_defs
             del: js_div.simps(1) js_add.simps(1) js_mul.simps(1))
  have rejected: "marketTrade ''sell'' (address enteredToken)
     (js_mul (buyAmount enteredToken)
        (js_div (numAt (soldPercents enteredToken) 0) (Finite 100)))
     ''key'' \<lparr>price = Some (Finite 126), tradeOutcomes = [False], tradeLog = []\<rparr> =
     (None, \<lparr>price = Some (Finite 126), tradeOutcomes = [],
             tradeLog = [(''sell'', ''TKN'', Finite (1 / 2), False)]\<rparr>)"
    by (simp add: token_defs marketTrade_def numAt_def double_facts
             del: js_div.simps(1) js_add.simps(1) js_mul.simps(1))
  note goes_on = failed_sell_continues [where autoSell = "marketTrade ''sell''",
      OF stage fires rejected, THEN conjunct1]
  have rest: "profitStages (marketTrade ''sell'') ''key'' (Finite 126) (0 + 1)
     (enteredToken\<lparr>status := Some Error\<rparr>)
     \<lparr>price = Some (Finite 126), tradeOutcomes = [],
      tradeLog = [(''sell'', ''TKN'', Finite (1 / 2), False)]\<rparr> =
   (enteredToken\<lparr>lastSellPrice := Some (Finite 126), currentStage := Some 2,
                  lastTxId := Some ''sell-tx'', finished := Some True, status := Some Sold\<rparr>,
    \<lparr>price = Some (Finite 126), tradeOutcomes = [],
     tradeLog = [(''sell'', ''TKN'', Finite (1 / 2), False),
                 (''sell'', ''TKN'', Finite (1 / 2), True)]\<rparr>)"
    by (simp add: profitStages.simps stageStep_def marketTrade_def Let_def condition_eval
                  token_defs
             del: js_div.simps(1) js_add.simps(1) js_mul.simps(1))
  from stage fires rejected goes_on rest show ?thesis
    by (intro conjI)
qed

text \<open>
  Claim C4. \<^verbatim>\<open>executeHoneyStrategy\<close> rejects with the wallet error exactly when the user
  record is absent or carries no wallet secret (none, or the empty string), and then it
  returns the \<^verbatim>\<open>users\<close> object and the outside world as they were: no token is looked at
  and no collaborator is called.
\<close>

theorem wallet_not_found:
  "(fst (executeHoneyStrategy userId us getPrice autoBuy autoSell w) = Some WalletNotFound \<longleftrightarrow>
      us userId = None \<or>
      (\<exists>u. us userId = Some u \<and> (secret u = None \<or> secret u = Some []))) \<and>
   (us userId = None \<or> (\<exists>u. us userId = Some u \<and> (secret u = None \<or> secret u = Some [])) \<longrightarrow>
      executeHoneyStrategy userId us getPrice autoBuy autoSell w = (Some WalletNotFound, us, w))"
  by (auto simp: executeHoneyStrategy_def Let_def split: option.splits prod.splits)

theorem wallet_not_found_witness:
  "noWalletUsers ''alice'' =
     Some \<lparr>secret = Some [],
           honeySettings = Some \<lparr>storedTokens = Some [enteredToken],
                                  storedRepeatOnEntry = Some True\<rparr>\<rparr> \<and>
   executeHoneyStrategy ''alice'' noWalletUsers marketGetPrice (marketTrade ''buy'')
     (marketTrade ''sell'') (quiet\<lparr>price := Some (Finite 126)\<rparr>) =
     (Some WalletNotFound, noWalletUsers, quiet\<lparr>price := Some (Finite 126)\<rparr>)"
proof -
  have u: "noWalletUsers ''alice'' =
     Some \<lparr>secret = Some [],
           honeySettings = Some \<lparr>storedTokens = Some [enteredToken],
                                  storedRepeatOnEntry = Some True\<rparr>\<rparr>"
    by (simp add: noWalletUsers_def)
  then have "\<exists>u. noWalletUsers ''alice'' = Some u \<and> (secret u = None \<or> secret u = Some [])"
    by simp
  with wallet_not_found [of "''alice''" noWalletUsers marketGetPrice "marketTrade ''buy''"
      "marketTrade ''sell''" "quiet\<lparr>price := Some (Finite 126)\<rparr>"]
  have "executeHoneyStrategy ''alice'' noWalletUsers marketGetPrice (marketTrade ''buy'')
     (marketTrade ''sell'') (quiet\<lparr>price := Some (Finite 126)\<rparr>) =
     (Some WalletNotFound, noWalletUsers, quiet\<lparr>price := Some (Finite 126)\<rparr>)"
    by blast
  with u show ?thesis by (intro conjI)
qed

text \<open>
  Claim C9, amended. \<^verbatim>\<open>addHoneyToken\<close> fails with the capacity error whenever the user
  has ten tokens or more; with fewer than ten, it fails with the duplicate error whenever
  a token of the same address is in the set; in both cases the \<^verbatim>\<open>users\<close> object is left
  as it was. Otherwise it succeeds, the token is appended to the user's tokens, the
  \<open>repeatOnEntry\<close> setting is kept and no other user is touched.
\<close>

theorem addHoneyToken_outcomes:
  "(length (tokens (getHoneySettings userId us)) \<ge> 10 \<longrightarrow>
      addHoneyToken userId token us = (Some MaximumTokens, us)) \<and>
   (length (tokens (getHoneySettings userId us)) < 10 \<and>
    address token \<in> address ` set (tokens (getHoneySettings userId us)) \<longrightarrow>
      addHoneyToken userId token us = (Some TokenExists, us)) \<and>
   (length (tokens (getHoneySettings userId us)) < 10 \<and>
    address token \<notin> address ` set (tokens (getHoneySettings userId us)) \<longrightarrow>
      fst (addHoneyToken userId token us) = None \<and>
      getHoneySettings userId (snd (addHoneyToken userId token us)) =
        \<lparr>tokens = tokens (getHoneySettings userId us) @ [token],
         repeatOnEntry = repeatOnEntry (getHoneySettings userId us)\<rparr> \<and>
      (\<forall>other. other \<noteq> userId \<longrightarrow> snd (addHoneyToken userId token us) other = us other))"
proof -
  have dup: "list_ex (\<lambda>t. address t = address token) (tokens (getHoneySettings userId us)) \<longleftrightarrow>
             address token \<in> address ` set (tokens (getHoneySettings userId us))"
  proof
    assume "list_ex (\<lambda>t. address t = address token) (tokens (getHoneySettings userId us))"
    then obtain t where "address token = address t" "t \<in> set (tokens (getHoneySettings userId us))"
      unfolding list_ex_iff by metis
    then show "address token \<in> address ` set (tokens (getHoneySettings userId us))"
      by (rule image_eqI)
  next
    assume "address token \<in> address ` set (tokens (getHoneySettings userId us))"
    then show "list_ex (\<lambda>t. address t = address token) (tokens (getHoneySettings userId us))"
      by (auto simp: list_ex_iff)
  qed
  show ?thesis
    unfolding addHoneyToken_def Let_def dup
    by (auto simp: getHoneySettings_def setHoneySettings_def Let_def split: option.splits)
qed

theorem addHoneyToken_outcomes_witness:
  "length (tokens (getHoneySettings ''alice'' fullUsers)) \<ge> 10 \<and>
   addHoneyToken ''alice'' (newToken\<lparr>address := ''T10''\<rparr>) fullUsers = (Some MaximumTokens, fullUsers) \<and>
   length (tokens (getHoneySettings ''alice'' (usersWith enteredToken True))) < 10 \<and>
   address newToken \<in> address ` set (tokens (getHoneySettings ''alice'' (usersWith enteredToken True))) \<and>
   addHoneyToken ''alice'' newToken (usersWith enteredToken True) =
     (Some TokenExists, usersWith enteredToken True) \<and>
   address (newToken\<lparr>address := ''T10''\<rparr>)
     \<notin> address ` set (tokens (getHoneySettings ''alice'' (usersWith enteredToken True))) \<and>
   fst (addHoneyToken ''alice'' (newToken\<lparr>address := ''T10''\<rparr>) (usersWith enteredToken True)) = None \<and>
   getHoneySettings ''alice''
     (snd (addHoneyToken ''alice'' (newToken\<lparr>address := ''T10''\<rparr>) (usersWith enteredToken True))) =
     \<lparr>tokens = [enteredToken, newToken\<lparr>address := ''T10''\<rparr>], repeatOnEntry = True\<rparr>"
proof -
  have full: "length (tokens (getHoneySettings ''alice'' fullUsers)) \<ge> 10"
    by (simp add: getHoneySettings_def fullUsers_def tenTokens_def)
  have settings: "getHoneySettings ''alice'' (usersWith enteredToken True) =
                  \<lparr>tokens = [enteredToken], repeatOnEntry = True\<rparr>"
    by (simp add: getHoneySettings_def usersWith_def)
  have room: "length (tokens (getHoneySettings ''alice'' (usersWith enteredToken True))) < 10"
    by (simp add: settings)
  have there: "address newToken
     \<in> address ` set (tokens (getHoneySettings ''alice'' (usersWith enteredToken True)))"
    unfolding settings by (simp add: token_defs)
  have absent: "address (newToken\<lparr>address := ''T10''\<rparr>)
     \<notin> address ` set (tokens (getHoneySettings ''alice'' (usersWith enteredToken True)))"
    unfolding settings by (simp add: token_defs)
  from full addHoneyToken_outcomes [of "''alice''" fullUsers "newToken\<lparr>address := ''T10''\<rparr>"]
  have 1: "addHoneyToken ''alice'' (newToken\<lparr>address := ''T10''\<rparr>) fullUsers =
           (Some MaximumTokens, fullUsers)"
    by blast
  from room there addHoneyToken_outcomes [of "''alice''" "usersWith enteredToken True" newToken]
  have 2: "addHoneyToken ''alice'' newToken (usersWith enteredToken True) =
           (Some TokenExists, usersWith enteredToken True)"
    by blast
  from room absent
    addHoneyToken_outcomes [of "''alice''" "usersWith enteredToken True" "newToken\<lparr>address := ''T10''\<rparr>"]
  have 3: "fst (addHoneyToken ''alice'' (newToken\<lparr>address := ''T10''\<rparr>) (usersWith enteredToken True)) = None"
    and "getHoneySettings ''alice''
     (snd (addHoneyToken ''alice'' (newToken\<lparr>address := ''T10''\<rparr>) (usersWith enteredToken True))) =
     \<lparr>tokens = tokens (getHoneySettings ''alice'' (usersWith enteredToken True)) @ [newToken\<lparr>address := ''T10''\<rparr>],
      repeatOnEntry = repeatOnEntry (getHoneySettings ''alice'' (usersWith enteredToken True))\<rparr>"
    by blast+
  then have 4: "getHoneySettings ''alice''
     (snd (addHoneyToken ''alice'' (newToken\<lparr>address := ''T10''\<rparr>) (usersWith enteredToken True))) =
     \<lparr>tokens = [enteredToken, newToken\<lparr>address := ''T10''\<rparr>], repeatOnEntry = True\<rparr>"
    by (simp add: settings)
  from full 1 room there 2 absent 3 4 show ?thesis
    by (intro conjI)
qed

text \<open>
  The duplicate clause of claim C9 as the specification states it fails when the user
  already has ten tokens: adding a token whose address \<^verbatim>\<open>T0\<close> is in the set is refused
  with the capacity error, not the duplicate error.
\<close>

theorem duplicate_at_capacity:
  "length (tokens (getHoneySettings ''alice'' fullUsers)) = 10 \<and>
   address (hd (tokens (getHoneySettings ''alice'' fullUsers))) = ''T0'' \<and>
   addHoneyToken ''alice'' (newToken\<lparr>address := ''T0''\<rparr>) fullUsers = (Some MaximumTokens, fullUsers) \<and>
   fst (addHoneyToken ''alice'' (newToken\<lparr>address := ''T0''\<rparr>) fullUsers) \<noteq> Some TokenExists"
  by (simp add: addHoneyToken_def getHoneySettings_def fullUsers_def tenTokens_def Let_def)

text \<open>
  Claim C10. A token whose recorded entry price is \<open>0\<close> is treated as not entered: once
  it has passed the validation and terminal checks and its price is fetched, the pass
  runs the entry step (the initial buy; on success the entry price becomes the current
  price and \<open>currentStage\<close> is reset to \<open>0\<close>; on failure the status becomes error) and no
  profit stage is evaluated, so \<open>autoSell\<close> plays no part in the result.
\<close>

theorem zero_entry_price_reenters:
  fixes getPrice :: "'w priceLookup"
  assumes "lastEntryPrice token = Some (Finite 0)"
      and "address token \<noteq> []" "truthy (buyAmount token)"
      and "profitPercents token \<noteq> []" "soldPercents token \<noteq> []"
      and "finished token \<noteq> Some True"
      and "getPrice (address token) w = (Some currentPrice, w1)"
  shows "evalToken userSecret repeat getPrice autoBuy autoSell token w =
         (case autoBuy (address token) (buyAmount token) userSecret w1 of
            (Some txId, w2) \<Rightarrow>
              (token\<lparr>lastEntryPrice := Some currentPrice, status := Some Active,
                     currentStage := Some 0, lastTxId := Some txId\<rparr>, w2)
          | (None, w2) \<Rightarrow> (token\<lparr>status := Some Error\<rparr>, w2))"
  using assms by (simp add: evalToken_def truthyOpt_def)

theorem zero_entry_price_reenters_witness:
  "lastEntryPrice zeroEntryToken = Some (Finite 0) \<and>
   currentStage zeroEntryToken = Some 1 \<and>
   marketGetPrice (address zeroEntryToken) (quiet\<lparr>price := Some (Finite 5)\<rparr>) =
     (Some (Finite 5), quiet\<lparr>price := Some (Finite 5)\<rparr>) \<and>
   evalToken ''key'' True marketGetPrice (marketTrade ''buy'') (marketTrade ''sell'')
     zeroEntryToken (quiet\<lparr>price := Some (Finite 5)\<rparr>) =
     (zeroEntryToken\<lparr>lastEntryPrice := Some (Finite 5), status := Some Active,
                     currentStage := Some 0, lastTxId := Some ''buy-tx''\<rparr>,
      \<lparr>price = Some (Finite 5), tradeOutcomes = [],
       tradeLog = [(''buy'', ''TKN'', Finite 1, True)]\<rparr>)"
proof -
  have zero: "lastEntryPrice zeroEntryToken = Some (Finite 0)"
    and stage: "currentStage zeroEntryToken = Some 1"
    and valid: "address zeroEntryToken \<noteq> []" "truthy (buyAmount zeroEntryToken)"
      "profitPercents zeroEntryToken \<noteq> []" "soldPercents zeroEntryToken \<noteq> []"
      "finished zeroEntryToken \<noteq> Some True"
    by (simp_all add: zeroEntryToken_def token_defs)
  have fetched: "marketGetPrice (address zeroEntryToken) (quiet\<lparr>price := Some (Finite 5)\<rparr>) =
     (Some (Finite 5), quiet\<lparr>price := Some (Finite 5)\<rparr>)"
    by (simp add: marketGetPrice_def)
  have bought: "marketTrade ''buy'' (address zeroEntryToken) (buyAmount zeroEntryToken) ''key''
       (quiet\<lparr>price := Some (Finite 5)\<rparr>) =
     (Some ''buy-tx'',
      \<lparr>price = Some (Finite 5), tradeOutcomes = [],
       tradeLog = [(''buy'', ''TKN'', Finite 1, True)]\<rparr>)"
    by (simp add: marketTrade_def quiet_def zeroEntryToken_def token_defs)
  from zero_entry_price_reenters [where getPrice = marketGetPrice
      and autoBuy = "marketTrade ''buy''" and autoSell = "marketTrade ''sell''"
      and userSecret = "''key''" and repeat = True, OF zero valid fetched]
  have run: "evalToken ''key'' True marketGetPrice (marketTrade ''buy'') (marketTrade ''sell'')
     zeroEntryToken (quiet\<lparr>price := Some (Finite 5)\<rparr>) =
     (zeroEntryToken\<lparr>lastEntryPrice := Some (Finite 5), status := Some Active,
                     currentStage := Some 0, lastTxId := Some ''buy-tx''\<rparr>,
      \<lparr>price = Some (Finite 5), tradeOutcomes = [],
       tradeLog = [(''buy'', ''TKN'', Finite 1, True)]\<rparr>)"
    by (simp add: bought)
  from zero stage fetched run show ?thesis
    by (intro conjI)
qed

end
